theory Spec2Isabelle
  imports Complex_Main "HOL-Library.Word"
begin

section \<open>Data model\<close>

text \<open>
  This theory models the geometric core of the F1 tracker (the reference-path builder
  \<open>generateReferenceTrack\<close> and the two locators \<open>mapLocationToIndex\<close> and
  \<open>mapLocationsToIndices\<close> of the test script) and the lifecycle of the service in
  \<open>module.go\<close> (\<open>start\<close> and one tick of \<open>fetcher\<close>), and proves properties of them.

  The Go sources use \<open>int\<close> for coordinates and keys and \<open>float64\<close> for distances.
  \<^item> \<open>int\<close> is the 64-bit two's complement integer of the usual targets: a \<open>64 word\<close>,
    read with \<open>sint\<close>; subtraction wraps.
  \<^item> A finite \<open>float64\<close> is the real number it denotes, and every floating-point
    operation of the source (the conversion of an \<open>int\<close>, \<open>+\<close>, \<open>-\<close>, \<open>*\<close>, \<open>/\<close>,
    \<open>math.Sqrt\<close>) is the exact operation followed by \<open>rnd\<close>, the rounding of IEEE 754
    binary64 to the nearest value with a significand of 53 bits, ties to even. Each
    operation is rounded on its own, as on amd64; a target that fuses \<open>x*y + z\<close> into one
    rounding may differ in the last bit.
    No operation here overflows: coordinates are 64-bit integers and a slice has fewer
    than \<open>2^63\<close> elements, so every sum of distances stays below \<open>2^128\<close>.
    The special values that the interpolation of \<open>generateReferenceTrack\<close> can produce
    (\<open>0/0\<close>, \<open>x/0\<close>) are kept, as the type \<open>float64\<close> below.
  \<^item> Indices and lengths of slices are natural numbers.
\<close>

type_synonym goint = "64 word"

datatype float64 = Finite real | NaN | PosInf | NegInf

text \<open>
  Go leaves the result of converting a floating-point value that \<open>int\<close> cannot represent
  implementation-dependent. The conversion of such values is a parameter of the model.
\<close>

type_synonym conv = "float64 \<Rightarrow> goint"

record TrackPoint =
  X :: goint
  Y :: goint
  Z :: goint

record ReferenceTrack =
  StartPoint :: TrackPoint
  Points :: "TrackPoint list"

record Session =
  SessionKey :: goint
  DateStart :: string
  DateEnd :: string

record Location =
  Date :: string
  DriverNumber :: goint
  MeetingKey :: goint
  SessionKey :: goint
  X :: goint
  Y :: goint
  Z :: goint

datatype error =
    NeedAtLeast144Locations
  | AlreadyStarted
  | ElementNotANumber nat string
  | ExpectsListOfIntegers string
  | RequiresAtLeastOneDriver
  | FailedToFetchSession string
  | FailedToParseStartTime string

section \<open>float64 arithmetic\<close>

text \<open>
  Rounding a real number to the nearest integer, ties to the even one; the exponent
  of the binade of a number, not below that of the smallest normal number; and \<open>rnd\<close>:
  a number other than 0 is rounded to the nearest multiple of the unit in the last place of
  its binade, \<open>2 powi (binade x - 52)\<close>, ties to the multiple with an even significand.
\<close>

definition rne :: "real \<Rightarrow> int" where
  "rne y =
     (let f = \<lfloor>y\<rfloor>; d = y - of_int f
      in if d < 1 / 2 then f
         else if 1 / 2 < d then f + 1
         else if even f then f else f + 1)"

definition binade :: "real \<Rightarrow> int" where
  "binade x = max \<lfloor>log 2 \<bar>x\<bar>\<rfloor> (- 1022)"

definition rnd :: "real \<Rightarrow> real" where
  "rnd x =
     (if x = 0 then 0
      else of_int (rne (x / 2 powi (binade x - 52))) * 2 powi (binade x - 52))"

text \<open>\<open>float64(n)\<close> for an \<open>int\<close>.\<close>

definition float64OfInt :: "goint \<Rightarrow> real" where
  "float64OfInt n = rnd (real_of_int (sint n))"

section \<open>Geometry\<close>

definition distance2D :: "goint \<Rightarrow> goint \<Rightarrow> goint \<Rightarrow> goint \<Rightarrow> real" where
  "distance2D x1 y1 x2 y2 =
     (let dx = float64OfInt (x2 - x1);
          dy = float64OfInt (y2 - y1)
      in rnd (sqrt (rnd (rnd (dx * dx) + rnd (dy * dy)))))"

text \<open>Floating-point division, multiplication and addition where a special value can arise.\<close>

definition fdiv :: "real \<Rightarrow> real \<Rightarrow> float64" where
  "fdiv a b =
     (if b \<noteq> 0 then Finite (rnd (a / b))
      else if a = 0 then NaN
      else if 0 < a then PosInf else NegInf)"

fun fmul :: "float64 \<Rightarrow> real \<Rightarrow> float64" where
  "fmul (Finite r) x = Finite (rnd (r * x))"
| "fmul NaN x = NaN"
| "fmul PosInf x = (if x = 0 then NaN else if 0 < x then PosInf else NegInf)"
| "fmul NegInf x = (if x = 0 then NaN else if 0 < x then NegInf else PosInf)"

fun fadd :: "real \<Rightarrow> float64 \<Rightarrow> float64" where
  "fadd x (Finite r) = Finite (rnd (x + r))"
| "fadd x v = v"

text \<open>\<open>int(f)\<close>: truncation towards zero where the result fits.\<close>

fun toInt :: "conv \<Rightarrow> float64 \<Rightarrow> goint" where
  "toInt cv (Finite r) =
     (let t = (if 0 \<le> r then \<lfloor>r\<rfloor> else \<lceil>r\<rceil>)
      in if - (2 ^ 63) \<le> t \<and> t < 2 ^ 63 then word_of_int t else cv (Finite r))"
| "toInt cv v = cv v"

text \<open>
  The running sum of segment lengths: \<open>cumulativeDistances[0] = 0\<close> and
  \<open>cumulativeDistances[i] = cumulativeDistances[i-1] + distance2D(l[i-1], l[i])\<close>.
  Both \<open>generateReferenceTrack\<close> and \<open>mapLocationsToIndices\<close> run this loop.
\<close>

fun cumulativeLoop :: "real \<Rightarrow> Location \<Rightarrow> Location list \<Rightarrow> real list" where
  "cumulativeLoop totalDist prev [] = []"
| "cumulativeLoop totalDist prev (l # ls) =
     (let dist = distance2D (Location.X prev) (Location.Y prev) (Location.X l) (Location.Y l);
          totalDist' = rnd (totalDist + dist)
      in totalDist' # cumulativeLoop totalDist' l ls)"

definition cumulativeDistancesOf :: "Location list \<Rightarrow> real list" where
  "cumulativeDistancesOf locations =
     (case locations of [] \<Rightarrow> [] | l # ls \<Rightarrow> 0 # cumulativeLoop 0 l ls)"

section \<open>Reference path builder: generateReferenceTrack\<close>

text \<open>
  The scan \<open>for i := 100; i < len(locations); i++\<close> with its \<open>break\<close>; the value returned
  is \<open>lapEndIdx\<close>, which starts as \<open>len(locations) - 1\<close>.
\<close>

function findLapEnd :: "Location list \<Rightarrow> goint \<Rightarrow> goint \<Rightarrow> nat \<Rightarrow> nat" where
  "findLapEnd locations startX startY i =
     (if i < length locations then
        (if distance2D (Location.X (locations ! i)) (Location.Y (locations ! i)) startX startY < 1000
         then i
         else findLapEnd locations startX startY (i + 1))
      else length locations - 1)"
  by pat_completeness auto
termination
  by (relation "measure (\<lambda>(locations, startX, startY, i). length locations - i)") auto

declare findLapEnd.simps [simp del]

definition lapLocationsOf :: "Location list \<Rightarrow> goint \<Rightarrow> goint \<Rightarrow> Location list" where
  "lapLocationsOf locations startX startY =
     (let lapEndIdx = findLapEnd locations startX startY 100;
          lapLocations = take (lapEndIdx + 1) locations
      in if length lapLocations < 144 then locations else lapLocations)"

text \<open>The search for the pair of samples whose cumulative distances bracket the target.\<close>

function findBracket :: "real list \<Rightarrow> real \<Rightarrow> nat \<Rightarrow> nat option" where
  "findBracket cumulativeDistances targetDist j =
     (if j + 1 < length cumulativeDistances then
        (if cumulativeDistances ! j \<le> targetDist \<and> targetDist \<le> cumulativeDistances ! (j + 1)
         then Some j
         else findBracket cumulativeDistances targetDist (j + 1))
      else None)"
  by pat_completeness auto
termination
  by (relation "measure (\<lambda>(cumulativeDistances, targetDist, j). length cumulativeDistances - j)") auto

declare findBracket.simps [simp del]

text \<open>\<open>int(float64(a) + ratio*float64(d))\<close>\<close>

definition lerp :: "conv \<Rightarrow> goint \<Rightarrow> float64 \<Rightarrow> goint \<Rightarrow> goint" where
  "lerp cv a ratio d = toInt cv (fadd (float64OfInt a) (fmul ratio (float64OfInt d)))"

definition referencePoint ::
  "conv \<Rightarrow> Location list \<Rightarrow> real list \<Rightarrow> TrackPoint \<Rightarrow> real \<Rightarrow> real \<Rightarrow> nat \<Rightarrow> TrackPoint" where
  "referencePoint cv lapLocations cumulativeDistances startPoint trackLength distToStart i =
     (let targetDist = rnd (rnd (real i / 143) * trackLength) in
      if i = 0 \<or> i = 143 then
        \<lparr>TrackPoint.X = TrackPoint.X startPoint, Y = TrackPoint.Y startPoint, Z = TrackPoint.Z startPoint\<rparr>
      else
        (case findBracket cumulativeDistances targetDist 0 of
           Some j \<Rightarrow>
             (let dist1 = cumulativeDistances ! j;
                  dist2 = cumulativeDistances ! (j + 1);
                  ratio = fdiv (rnd (targetDist - dist1)) (rnd (dist2 - dist1));
                  a = lapLocations ! j;
                  b = lapLocations ! (j + 1)
              in \<lparr>TrackPoint.X = lerp cv (Location.X a) ratio (Location.X b - Location.X a),
                  Y = lerp cv (Location.Y a) ratio (Location.Y b - Location.Y a),
                  Z = lerp cv (Location.Z a) ratio (Location.Z b - Location.Z a)\<rparr>)
         | None \<Rightarrow>
             if last cumulativeDistances < targetDist then
               (let dist1 = last cumulativeDistances;
                    ratio = fdiv (rnd (targetDist - dist1)) distToStart;
                    lastPoint = last lapLocations
                in \<lparr>TrackPoint.X = lerp cv (Location.X lastPoint) ratio (TrackPoint.X startPoint - Location.X lastPoint),
                    Y = lerp cv (Location.Y lastPoint) ratio (TrackPoint.Y startPoint - Location.Y lastPoint),
                    Z = lerp cv (Location.Z lastPoint) ratio (TrackPoint.Z startPoint - Location.Z lastPoint)\<rparr>)
             else \<lparr>TrackPoint.X = 0, Y = 0, Z = 0\<rparr>))"

definition generateReferenceTrack ::
  "conv \<Rightarrow> Location list \<Rightarrow> TrackPoint \<Rightarrow> error + ReferenceTrack" where
  "generateReferenceTrack cv locations startPoint =
     (if length locations < 144 then Inl NeedAtLeast144Locations
      else
        (let startX = TrackPoint.X startPoint;
             startY = TrackPoint.Y startPoint;
             lapLocations = lapLocationsOf locations startX startY;
             cumulativeDistances = cumulativeDistancesOf lapLocations;
             totalDist = last cumulativeDistances;
             distToStart = distance2D (Location.X (last lapLocations)) (Location.Y (last lapLocations))
                             startX startY;
             trackLength = rnd (totalDist + distToStart);
             referencePoints =
               map (referencePoint cv lapLocations cumulativeDistances startPoint trackLength distToStart)
                 [0..<144]
         in Inr \<lparr>StartPoint = startPoint, Points = referencePoints\<rparr>))"

section \<open>Path locator: mapLocationToIndex\<close>

text \<open>
  \<open>math.MaxFloat64\<close>, and the \<open>range\<close> loop over the points of the track with its running
  minimum \<open>minDist\<close> and the index \<open>closestIdx\<close> where it was found.
\<close>

definition MaxFloat64 :: real where
  "MaxFloat64 = (2 ^ 53 - 1) * 2 ^ 971"

fun closestLoop :: "Location \<Rightarrow> TrackPoint list \<Rightarrow> nat \<Rightarrow> real \<Rightarrow> nat \<Rightarrow> nat" where
  "closestLoop location [] i minDist closestIdx = closestIdx"
| "closestLoop location (refPoint # rest) i minDist closestIdx =
     (let dist = distance2D (Location.X location) (Location.Y location)
                   (TrackPoint.X refPoint) (TrackPoint.Y refPoint)
      in if dist < minDist then closestLoop location rest (i + 1) dist i
         else closestLoop location rest (i + 1) minDist closestIdx)"

definition mapLocationToIndex :: "Location \<Rightarrow> ReferenceTrack \<Rightarrow> nat" where
  "mapLocationToIndex location track =
     (if length (Points track) \<noteq> 144 then 0
      else closestLoop location (Points track) 0 MaxFloat64 0)"

section \<open>Path locator: mapLocationsToIndices\<close>

text \<open>
  The threshold is five times the average segment length,
  \<open>totalDistance / float64(len(locations)-1)\<close>. For a single sample this quotient is \<open>0/0\<close>,
  not a number; the detection loop below does not run then, so the threshold is never
  compared.
\<close>

definition minPointsForLap :: nat where
  "minPointsForLap = 50"

definition lapThreshold :: "Location list \<Rightarrow> real" where
  "lapThreshold locations =
     (let totalDistance = last (cumulativeDistancesOf locations);
          avgSegmentLength = rnd (totalDistance / rnd (real (length locations - 1)))
      in rnd (avgSegmentLength * 5))"

text \<open>
  The detection loop \<open>for i := minPointsForLap; i < len(locations); i++\<close>. The bound \<open>n\<close> is an
  argument, so that the lap starts recorded before the loop reaches a given sample can be
  named: \<open>lapStartsBefore locations i\<close>. The function runs it to \<open>len(locations)\<close>.
\<close>

function detectLoop ::
  "Location list \<Rightarrow> goint \<Rightarrow> goint \<Rightarrow> real \<Rightarrow> nat \<Rightarrow> nat \<Rightarrow> nat list \<Rightarrow> nat list" where
  "detectLoop locations firstPointX firstPointY threshold n i lapStarts =
     (if i < n then
        (let distToFirst = distance2D (Location.X (locations ! i)) (Location.Y (locations ! i))
                             firstPointX firstPointY;
             lapStarts' =
               (if distToFirst < threshold then
                  (let lastLapStart = last lapStarts
                   in if int minPointsForLap < int i - int lastLapStart
                      then lapStarts @ [i] else lapStarts)
                else lapStarts)
         in detectLoop locations firstPointX firstPointY threshold n (i + 1) lapStarts')
      else lapStarts)"
  by pat_completeness auto
termination
  by (relation "measure (\<lambda>(locations, firstPointX, firstPointY, threshold, n, i, lapStarts). n - i)")
    auto

declare detectLoop.simps [simp del]

definition lapStartsBefore :: "Location list \<Rightarrow> nat \<Rightarrow> nat list" where
  "lapStartsBefore locations n =
     detectLoop locations (Location.X (locations ! 0)) (Location.Y (locations ! 0))
       (lapThreshold locations) n minPointsForLap [0]"

definition detectLapStarts :: "Location list \<Rightarrow> nat list" where
  "detectLapStarts locations = lapStartsBefore locations (length locations)"

text \<open>
  The search \<open>for j := len(lapStarts) - 1; j >= 0; j--\<close> for the lap of sample \<open>i\<close>; the third
  argument is \<open>j + 1\<close>, and \<open>lapIndex\<close> stays 0 when the search finds nothing.
\<close>

fun findLapIndex :: "nat list \<Rightarrow> nat \<Rightarrow> nat \<Rightarrow> nat" where
  "findLapIndex lapStarts i 0 = 0"
| "findLapIndex lapStarts i (Suc j) =
     (if lapStarts ! j \<le> i then j else findLapIndex lapStarts i j)"

text \<open>
  The index of sample \<open>i\<close> within its lap: \<open>int(math.Floor(normalized * 144))\<close>, replaced
  by 143 when it reaches 144.
\<close>

definition indexInLap :: "real list \<Rightarrow> nat list \<Rightarrow> nat \<Rightarrow> nat \<Rightarrow> int" where
  "indexInLap cumulativeDistances lapStarts n i =
     (let lapIndex = findLapIndex lapStarts i (length lapStarts);
          lapStartIdx = lapStarts ! lapIndex;
          lapEndIdx = (if lapIndex + 1 < length lapStarts
                       then lapStarts ! (lapIndex + 1) - 1 else n - 1);
          lapStartDist = cumulativeDistances ! lapStartIdx;
          lapEndDist = cumulativeDistances ! lapEndIdx;
          pointDist = cumulativeDistances ! i
      in if lapEndDist = lapStartDist then 0
         else (let normalized = rnd (rnd (pointDist - lapStartDist) / rnd (lapEndDist - lapStartDist));
                   index = \<lfloor>rnd (normalized * 144)\<rfloor>
               in if 144 \<le> index then 143 else index))"

definition mapLocationsToIndices :: "Location list \<Rightarrow> int list" where
  "mapLocationsToIndices locations =
     (if length locations = 0 then []
      else (let cumulativeDistances = cumulativeDistancesOf locations;
                lapStarts = detectLapStarts locations
            in map (indexInLap cumulativeDistances lapStarts (length locations))
                 [0..<length locations]))"

section \<open>Pipeline controller and windowed fetcher (module.go)\<close>

text \<open>
  \<open>time.Time\<close> is a number of nanoseconds and \<open>time.Duration\<close> a difference of such numbers.
\<close>

type_synonym time = int

definition millisecond :: int where "millisecond = 1000000"
definition minute :: int where "minute = 60000000000"
definition locationChannelBuffer :: nat where "locationChannelBuffer = 500"
definition fetchWindowDuration :: int where "fetchWindowDuration = minute"
definition bufferLowThreshold :: real where "bufferLowThreshold = rnd (1 / 5)"

text \<open>
  A buffered channel of locations: the locations queued in it, in order, its capacity and
  whether it has been closed. Closing a closed channel and sending on a closed channel
  panic. Receiving is the consumer's side and runs concurrently; it is not part of this
  model, so a send that would wait for the consumer completes here.
\<close>

record chan =
  buffer :: "Location list"
  capacity :: nat
  closed :: bool

definition makeChan :: "nat \<Rightarrow> chan" where
  "makeChan n = \<lparr>buffer = [], capacity = n, closed = False\<rparr>"

datatype panic = CloseOfClosedChannel | SendOnClosedChannel

record fetcherState =
  sessionKey :: goint
  lastFetchedTime :: time
  driverNumber :: goint

datatype worker = FetcherWorker fetcherState nat | ConsumerWorker

text \<open>
  The payload of the \<open>start\<close> command, an \<open>interface{}\<close>: a \<open>[]int\<close>, a \<open>[]interface{}\<close> of
  values that are \<open>int\<close>, \<open>int64\<close>, \<open>float64\<close> or of some other type (named, as \<open>%T\<close> prints
  it), or a value of some other type.
\<close>

datatype goValue = IntVal goint | Int64Val "64 word" | Float64Val float64 | OtherVal string

datatype cmdValue = IntSlice "goint list" | InterfaceSlice "goValue list" | OtherCmd string

datatype startResult = Started nat

text \<open>
  The collaborators outside this repository, as parameters: the result of the session
  request, the parser \<open>time.Parse(time.RFC3339, _)\<close>, the result of a location request for
  a session, a driver and a time window, and how the \<open>select\<close> of the sending loop is
  resolved: the number of sends it performs before it takes \<open>ctx.Done()\<close> (\<open>None\<close>: it
  never takes it). Every run of the loop is one of these.
\<close>

record env =
  fetchSession :: "string + Session"
  parseRFC3339 :: "string \<Rightarrow> time option"
  fetchLocationData :: "goint \<Rightarrow> goint \<Rightarrow> time \<Rightarrow> time \<Rightarrow> string + Location list"
  ctxDoneAfter :: "nat option"

text \<open>
  The file holds two variants of the service: the current one, with one channel and one
  fetcher per driver, and a single-driver one. Their state, with the fields that
  \<open>start\<close> reads and writes. The workers run concurrently after \<open>start\<close> returns; the state
  returned is the one at the return of \<open>start\<close>.
\<close>

record vizF1viz_single =
  started :: bool
  locationChan :: "chan option"
  workers :: "worker list"

record vizF1viz =
  referenceTrack :: ReferenceTrack
  locationChans :: "chan list"
  workers :: "worker list"
  started :: bool
  roundCounter :: int

text \<open>\<open>atomic.Bool.CompareAndSwap(old, new)\<close>: whether it swapped, and the value afterwards.\<close>

definition compareAndSwap :: "bool \<Rightarrow> bool \<Rightarrow> bool \<Rightarrow> bool \<times> bool" where
  "compareAndSwap old new current = (if current = old then (True, new) else (False, current))"

text \<open>The current variant: \<open>start(ctx, cmdValue)\<close> (module.go, line 206).\<close>

fun parseElements :: "conv \<Rightarrow> nat \<Rightarrow> goValue list \<Rightarrow> goint list \<Rightarrow> error + goint list" where
  "parseElements cv i [] driverNumbers = Inr driverNumbers"
| "parseElements cv i (IntVal n # vs) driverNumbers = parseElements cv (i + 1) vs (driverNumbers @ [n])"
| "parseElements cv i (Int64Val n # vs) driverNumbers = parseElements cv (i + 1) vs (driverNumbers @ [n])"
| "parseElements cv i (Float64Val n # vs) driverNumbers =
     parseElements cv (i + 1) vs (driverNumbers @ [toInt cv n])"
| "parseElements cv i (OtherVal T # vs) driverNumbers = Inl (ElementNotANumber i T)"

definition parseDriverNumbers :: "conv \<Rightarrow> cmdValue \<Rightarrow> error + goint list" where
  "parseDriverNumbers cv cmdValue =
     (case cmdValue of
        IntSlice nums \<Rightarrow> Inr nums
      | InterfaceSlice nums \<Rightarrow> parseElements cv 0 nums []
      | OtherCmd T \<Rightarrow> Inl (ExpectsListOfIntegers T))"

definition resetStarted :: "vizF1viz \<Rightarrow> vizF1viz" where
  "resetStarted s = s\<lparr>started := snd (compareAndSwap True False (started s))\<rparr>"

definition launch :: "vizF1viz \<Rightarrow> goint \<Rightarrow> time \<Rightarrow> goint list \<Rightarrow> vizF1viz" where
  "launch s key startTime driverNumbers =
     s\<lparr>locationChans := replicate (length driverNumbers) (makeChan locationChannelBuffer),
       workers :=
         map (\<lambda>i. FetcherWorker
                \<lparr>sessionKey = key, lastFetchedTime = startTime,
                 driverNumber = driverNumbers ! i\<rparr> i)
           [0..<length driverNumbers]
         @ [ConsumerWorker]\<rparr>"

definition start :: "conv \<Rightarrow> env \<Rightarrow> vizF1viz \<Rightarrow> cmdValue \<Rightarrow> (error + startResult) \<times> vizF1viz" where
  "start cv e s cmdValue =
     (case compareAndSwap False True (started s) of
        (swapped, flag) \<Rightarrow>
          (let s1 = s\<lparr>started := flag\<rparr> in
           if \<not> swapped then (Inl AlreadyStarted, s1)
           else
             (case parseDriverNumbers cv cmdValue of
                Inl err \<Rightarrow> (Inl err, s1)
              | Inr driverNumbers \<Rightarrow>
                  if length driverNumbers = 0 then (Inl RequiresAtLeastOneDriver, s1)
                  else
                    (case fetchSession e of
                       Inl err \<Rightarrow> (Inl (FailedToFetchSession err), resetStarted s1)
                     | Inr session \<Rightarrow>
                         (case parseRFC3339 e (DateStart session) of
                            None \<Rightarrow> (Inl (FailedToParseStartTime (DateStart session)), resetStarted s1)
                          | Some startTime \<Rightarrow>
                              (Inr (Started (length driverNumbers)),
                               launch s1 (Session.SessionKey session) startTime driverNumbers))))))"


text \<open>The single-driver variant: \<open>start(ctx)\<close> (module.go, line 856).\<close>

definition launch_single :: "vizF1viz_single \<Rightarrow> goint \<Rightarrow> time \<Rightarrow> vizF1viz_single" where
  "launch_single s key startTime =
     s\<lparr>locationChan := Some (makeChan locationChannelBuffer),
       vizF1viz_single.workers :=
         [FetcherWorker \<lparr>sessionKey = key, lastFetchedTime = startTime, driverNumber = 44\<rparr> 0,
          ConsumerWorker]\<rparr>"

definition resetStarted_single :: "vizF1viz_single \<Rightarrow> vizF1viz_single" where
  "resetStarted_single s =
     s\<lparr>vizF1viz_single.started := snd (compareAndSwap True False (vizF1viz_single.started s))\<rparr>"

definition start_single :: "env \<Rightarrow> vizF1viz_single \<Rightarrow> (error + startResult) \<times> vizF1viz_single" where
  "start_single e s =
     (case compareAndSwap False True (vizF1viz_single.started s) of
        (swapped, flag) \<Rightarrow>
          (let s1 = s\<lparr>vizF1viz_single.started := flag\<rparr> in
           if swapped then (Inl AlreadyStarted, s1)
           else
             (case fetchSession e of
                Inl err \<Rightarrow> (Inl (FailedToFetchSession err), resetStarted_single s1)
              | Inr session \<Rightarrow>
                  (case parseRFC3339 e (DateStart session) of
                     None \<Rightarrow>
                       (Inl (FailedToParseStartTime (DateStart session)), resetStarted_single s1)
                   | Some startTime \<Rightarrow>
                       (Inr (Started 1), launch_single s1 (Session.SessionKey session) startTime)))))"

text \<open>
  One tick of the fetcher of the current variant (module.go, line 322): the loop of sends
  with its \<open>select\<close> on \<open>ctx.Done()\<close>, and \<open>close\<close>. The buffer level of a channel of
  capacity 0 is \<open>0/0\<close>, which is below nothing.
\<close>

fun sendAll :: "nat option \<Rightarrow> Location list \<Rightarrow> chan \<Rightarrow> panic + bool \<times> chan" where
  "sendAll done [] ch = Inr (True, ch)"
| "sendAll done (loc # locations) ch =
     (if done = Some 0 then Inr (False, ch)
      else if closed ch then Inl SendOnClosedChannel
      else sendAll (map_option (\<lambda>k. k - 1) done) locations (ch\<lparr>buffer := buffer ch @ [loc]\<rparr>))"

definition closeChan :: "chan \<Rightarrow> panic + chan" where
  "closeChan ch = (if closed ch then Inl CloseOfClosedChannel else Inr (ch\<lparr>closed := True\<rparr>))"

definition fetcher :: "env \<Rightarrow> fetcherState \<Rightarrow> chan \<Rightarrow> panic + fetcherState \<times> chan" where
  "fetcher e state driverChan =
     (let bufferLevel = rnd (rnd (real (length (buffer driverChan))) / rnd (real (capacity driverChan))) in
      if capacity driverChan \<noteq> 0 \<and> bufferLevel < bufferLowThreshold then
        (let endTime = lastFetchedTime state + fetchWindowDuration in
         case fetchLocationData e (sessionKey state) (driverNumber state)
                (lastFetchedTime state) endTime of
           Inl err \<Rightarrow> Inr (state, driverChan)
         | Inr locations \<Rightarrow>
             if length locations = 0 then
               (case closeChan driverChan of
                  Inl p \<Rightarrow> Inl p
                | Inr ch \<Rightarrow> Inr (state, ch))
             else
               (case sendAll (ctxDoneAfter e) locations driverChan of
                  Inl p \<Rightarrow> Inl p
                | Inr (False, ch) \<Rightarrow> Inr (state, ch)
                | Inr (True, ch) \<Rightarrow>
                    (case parseRFC3339 e (Date (last locations)) of
                       Some lastLocTime \<Rightarrow>
                         Inr (state\<lparr>lastFetchedTime := lastLocTime + 1 * millisecond\<rparr>, ch)
                     | None \<Rightarrow> Inr (state\<lparr>lastFetchedTime := endTime\<rparr>, ch))))
      else Inr (state, driverChan))"

section \<open>Lap detection as the specification words it\<close>




text \<open>Inputs used below: 144 samples at the origin, and 143 far samples followed by 7 near ones.\<close>

definition sampleAt :: "goint \<Rightarrow> goint \<Rightarrow> Location" where
  "sampleAt x y =
     \<lparr>Date = [], DriverNumber = 44, MeetingKey = 0, SessionKey = 0, X = x, Y = y, Z = 0\<rparr>"




text \<open>
  The planar distance from a sample to a point of the track: as \<open>mapLocationToIndex\<close>
  computes it, in \<open>float64\<close>, and the Euclidean distance of the two positions.
\<close>

definition exactDistance :: "Location \<Rightarrow> TrackPoint \<Rightarrow> real" where
  "exactDistance location p =
     sqrt ((real_of_int (sint (TrackPoint.X p)) - real_of_int (sint (Location.X location)))\<^sup>2 +
           (real_of_int (sint (TrackPoint.Y p)) - real_of_int (sint (Location.Y location)))\<^sup>2)"

definition planarDistance :: "Location \<Rightarrow> TrackPoint \<Rightarrow> real" where
  "planarDistance location p =
     distance2D (Location.X location) (Location.Y location) (TrackPoint.X p) (TrackPoint.Y p)"

text \<open>
  A track whose point 5 is the only one at \<open>(30, 40)\<close>, and a track whose point 0 is one unit
  farther to the side than the other 143, at a distance of \<open>2^26\<close> from the origin.
\<close>

definition farTrack :: ReferenceTrack where
  "farTrack =
     \<lparr>StartPoint = \<lparr>TrackPoint.X = 67108864, Y = 1, Z = 0\<rparr>,
      Points = \<lparr>TrackPoint.X = 67108864, Y = 1, Z = 0\<rparr>
                 # replicate 143 \<lparr>TrackPoint.X = 67108864, Y = 0, Z = 0\<rparr>\<rparr>"

definition pointAt :: "goint \<Rightarrow> goint \<Rightarrow> TrackPoint" where
  "pointAt x y = \<lparr>TrackPoint.X = x, Y = y, Z = 0\<rparr>"

definition straightTrack :: ReferenceTrack where
  "straightTrack =
     \<lparr>StartPoint = pointAt 0 0,
      Points = replicate 5 (pointAt 0 0) @ [pointAt 30 40] @ replicate 138 (pointAt 60 80)\<rparr>"

section \<open>Lap segmentation as the specification words it\<close>

text \<open>The planar distance from sample \<open>i\<close> back to the first sample, and the body of the detection loop.\<close>

definition distToFirst :: "Location list \<Rightarrow> nat \<Rightarrow> real" where
  "distToFirst locations i =
     distance2D (Location.X (locations ! i)) (Location.Y (locations ! i))
       (Location.X (locations ! 0)) (Location.Y (locations ! 0))"

definition lapStep :: "Location list \<Rightarrow> goint \<Rightarrow> goint \<Rightarrow> real \<Rightarrow> nat \<Rightarrow> nat list \<Rightarrow> nat list" where
  "lapStep locations fx fy threshold i lapStarts =
     (if distance2D (Location.X (locations ! i)) (Location.Y (locations ! i)) fx fy < threshold
         \<and> int minPointsForLap < int i - int (last lapStarts)
      then lapStarts @ [i] else lapStarts)"

text \<open>
  The most recent lap boundary at or before sample \<open>i\<close>; the last sample of that lap (the
  sample before the next boundary, or the last sample of the stream); the index with the
  difference, the quotient and the product by 144 each rounded to \<open>float64\<close>; and the index
  the specification gives: the floor of 144 times the fraction of the lap's arc length
  covered, at most 143, and 0 for a lap of zero arc length.
\<close>

definition lapStartOf :: "nat list \<Rightarrow> nat \<Rightarrow> nat" where
  "lapStartOf boundaries i = Max (set (filter (\<lambda>b. b \<le> i) boundaries))"

definition lapEndOf :: "nat list \<Rightarrow> nat \<Rightarrow> nat \<Rightarrow> nat" where
  "lapEndOf boundaries n i =
     (if \<exists>b \<in> set boundaries. i < b
      then Min (set (filter (\<lambda>b. i < b) boundaries)) - 1
      else n - 1)"

definition roundedIndex :: "real list \<Rightarrow> nat list \<Rightarrow> nat \<Rightarrow> nat \<Rightarrow> int" where
  "roundedIndex cum boundaries n i =
     (let s = lapStartOf boundaries i;
          e = lapEndOf boundaries n i
      in if cum ! e = cum ! s then 0
         else min 143 \<lfloor>rnd (rnd (rnd (cum ! i - cum ! s) / rnd (cum ! e - cum ! s)) * 144)\<rfloor>)"

definition specIndex :: "real list \<Rightarrow> nat list \<Rightarrow> nat \<Rightarrow> nat \<Rightarrow> int" where
  "specIndex cum boundaries n i =
     (let s = lapStartOf boundaries i;
          e = lapEndOf boundaries n i;
          arc = cum ! e - cum ! s
      in if arc = 0 then 0
         else min 143 \<lfloor>144 * (cum ! i - cum ! s) / arc\<rfloor>)"

text \<open>
  Samples evenly spaced along a straight line: sample \<open>i\<close> lies at
  \<open>(x0 + i * dx, y0 + i * dy)\<close>. Three samples around a bend.
\<close>

definition evenlySpacedLine :: "Location list \<Rightarrow> int \<Rightarrow> int \<Rightarrow> int \<Rightarrow> int \<Rightarrow> bool" where
  "evenlySpacedLine locations x0 y0 dx dy =
     (\<forall>i < length locations.
        sint (Location.X (locations ! i)) = x0 + int i * dx \<and>
        sint (Location.Y (locations ! i)) = y0 + int i * dy)"

definition bend :: "Location list" where
  "bend = [sampleAt 0 0, sampleAt (- 27) (- 14), sampleAt (- 24) 4]"

text \<open>
  Sample streams: out to \<open>(10, 0)\<close> and back at sample 50; the same, back at sample 51;
  out to \<open>(28, 84)\<close> and back to \<open>(5, 15)\<close> at sample 51, where the distance to sample 0,
  \<open>5 * sqrt 10\<close>, is five times the mean segment length \<open>51 * sqrt 10 / 51\<close>;
  three samples 5 apart; 60 samples 5 apart on a line.
\<close>

definition outAndBack :: "Location list" where
  "outAndBack = sampleAt 0 0 # replicate 49 (sampleAt 10 0) @ [sampleAt 0 0]"

definition secondLap :: "Location list" where
  "secondLap = sampleAt 0 0 # replicate 50 (sampleAt 10 0) @ [sampleAt 0 0]"

definition tenLap :: "Location list" where
  "tenLap = sampleAt 0 0 # replicate 50 (sampleAt 28 84) @ [sampleAt 5 15]"

definition threePoints :: "Location list" where
  "threePoints = [sampleAt 0 0, sampleAt 3 4, sampleAt 6 8]"

definition straightRun :: "Location list" where
  "straightRun = map (\<lambda>i. sampleAt (of_nat i * 3) (of_nat i * 4)) [0..<60]"

section \<open>Sample states of the service\<close>

text \<open>
  An upstream whose session request succeeds and whose location requests fail; one whose
  location requests return one sample; a service that has not been started; one fetcher
  state and an empty queue.
\<close>

definition raceSession :: Session where
  "raceSession = \<lparr>Session.SessionKey = 9161, DateStart = ''2023-09-17T12:00:00+00:00'',
     DateEnd = ''2023-09-17T14:00:00+00:00''\<rparr>"

definition upstreamDown :: env where
  "upstreamDown =
     \<lparr>fetchSession = Inr raceSession,
      parseRFC3339 = (\<lambda>s. Some 0),
      fetchLocationData = (\<lambda>key driver startTime endTime. Inl ''failed to make request''),
      ctxDoneAfter = None\<rparr>"

definition freshModule :: vizF1viz where
  "freshModule =
     \<lparr>referenceTrack = straightTrack, locationChans = [], workers = [], started = False,
      roundCounter = 0\<rparr>"

definition freshModule_single :: vizF1viz_single where
  "freshModule_single = \<lparr>vizF1viz_single.started = False, locationChan = None, workers = []\<rparr>"

definition upstreamOneSample :: env where
  "upstreamOneSample =
     upstreamDown\<lparr>fetchLocationData := (\<lambda>key driver startTime endTime. Inr [sampleAt 0 0])\<rparr>"

definition hamilton :: fetcherState where
  "hamilton = \<lparr>sessionKey = 9161, lastFetchedTime = 0, driverNumber = 44\<rparr>"

definition emptyQueue :: chan where
  "emptyQueue = makeChan locationChannelBuffer"

section \<open>Rounding to float64\<close>

text \<open>
  Rounding to the nearest integer is monotone, odd, and the identity on integers; it is
  determined by an open interval of width 1 around an integer, and at a tie by parity.
\<close>

lemma rne_of_int [simp]: "rne (of_int m) = m"
  by (simp add: rne_def)

lemma rne_lower: "\<lfloor>y\<rfloor> \<le> rne y"
  by (simp add: rne_def Let_def)

lemma rne_upper: "rne y \<le> \<lfloor>y\<rfloor> + 1"
  by (simp add: rne_def Let_def)

lemma rne_ge: "of_int a \<le> y \<Longrightarrow> a \<le> rne y"
proof -
  assume "of_int a \<le> y"
  then have "a \<le> \<lfloor>y\<rfloor>" by (simp only: le_floor_iff)
  then show ?thesis using rne_lower [of y] by linarith
qed

lemma rne_le: "y \<le> of_int b \<Longrightarrow> rne y \<le> b"
proof (cases "y = of_int b")
  case True
  then show ?thesis by simp
next
  case False
  assume "y \<le> of_int b"
  with False have "y < of_int b" by simp
  then have "\<lfloor>y\<rfloor> < b" by (simp add: floor_less_iff)
  then show ?thesis using rne_upper [of y] by simp
qed

lemma rne_mono: "a \<le> b \<Longrightarrow> rne a \<le> rne b"
proof -
  assume ab: "a \<le> b"
  then have fl: "\<lfloor>a\<rfloor> \<le> \<lfloor>b\<rfloor>" by (rule floor_mono)
  show ?thesis
  proof (cases "\<lfloor>a\<rfloor> = \<lfloor>b\<rfloor>")
    case True
    then show ?thesis using ab by (auto simp: rne_def Let_def)
  next
    case False
    then have "\<lfloor>a\<rfloor> + 1 \<le> \<lfloor>b\<rfloor>" using fl by simp
    then show ?thesis using rne_upper [of a] rne_lower [of b] by linarith
  qed
qed

lemma rne_eval: "of_int m - 1 / 2 < y \<Longrightarrow> y < of_int m + 1 / 2 \<Longrightarrow> rne y = m"
proof -
  assume lo: "of_int m - 1 / 2 < y" and hi: "y < of_int m + 1 / 2"
  have "\<lfloor>y\<rfloor> = m \<or> \<lfloor>y\<rfloor> = m - 1"
  proof -
    have "of_int (m - 1) \<le> y" using lo by simp
    then have "m - 1 \<le> \<lfloor>y\<rfloor>" by (simp only: le_floor_iff)
    moreover have "y < of_int (m + 1)" using hi by simp
    then have "\<lfloor>y\<rfloor> < m + 1" by (simp only: floor_less_iff)
    ultimately show ?thesis by linarith
  qed
  then show ?thesis
  proof
    assume f: "\<lfloor>y\<rfloor> = m"
    then show ?thesis using hi by (simp add: rne_def Let_def)
  next
    assume f: "\<lfloor>y\<rfloor> = m - 1"
    then show ?thesis using lo by (simp add: rne_def Let_def)
  qed
qed

lemma rne_tie_even: "even m \<Longrightarrow> y = of_int m + 1 / 2 \<or> y = of_int m - 1 / 2 \<Longrightarrow> rne y = m"
proof -
  assume ev: "even m" and y: "y = of_int m + 1 / 2 \<or> y = of_int m - 1 / 2"
  from y show ?thesis
  proof
    assume a: "y = of_int m + 1 / 2"
    have "\<lfloor>y\<rfloor> = m" unfolding a by (rule floor_unique) simp_all
    then show ?thesis using ev a by (simp add: rne_def Let_def)
  next
    assume a: "y = of_int m - 1 / 2"
    have "\<lfloor>y\<rfloor> = m - 1" unfolding a by (rule floor_unique) simp_all
    then show ?thesis using ev a by (simp add: rne_def Let_def)
  qed
qed

text \<open>
  \<open>rnd\<close> is odd, monotone and idempotent; it is the identity on every integer multiple of a
  power of two whose significand has at most 53 bits, and on a number of a known binade
  it is \<open>rne\<close> on the multiples of that binade's unit in the last place.
\<close>

lemma rnd_0 [simp]: "rnd 0 = 0"
  by (simp add: rnd_def)

lemma binade_bounds:
  assumes "x \<noteq> 0" and "e = \<lfloor>log 2 \<bar>x\<bar>\<rfloor>"
  shows "2 powi e \<le> \<bar>x\<bar>" and "\<bar>x\<bar> < 2 powi (e + 1)"
proof -
  have pos: "0 < \<bar>x\<bar>" using assms(1) by simp
  have "2 powr (real_of_int e) \<le> \<bar>x\<bar> \<and> \<bar>x\<bar> < 2 powr (real_of_int e + 1)"
    using floor_log_eq_powr_iff [OF pos, of 2 e] assms(2) by simp
  moreover have "2 powr (real_of_int e) = (2 :: real) powi e"
    by (rule powr_real_of_int') simp_all
  moreover have "2 powr (real_of_int e + 1) = (2 :: real) powi (e + 1)"
    using powr_real_of_int' [of 2 "e + 1"] by simp
  ultimately show "2 powi e \<le> \<bar>x\<bar>" and "\<bar>x\<bar> < 2 powi (e + 1)" by simp_all
qed

lemma floor_log_unique:
  assumes "0 < x" "2 powi e \<le> x" "x < 2 powi (e + 1)"
  shows "\<lfloor>log 2 x\<rfloor> = e"
proof -
  have "2 powr (real_of_int e) = (2 :: real) powi e"
    by (rule powr_real_of_int') simp_all
  moreover have "2 powr (real_of_int e + 1) = (2 :: real) powi (e + 1)"
    using powr_real_of_int' [of 2 "e + 1"] by simp
  ultimately show ?thesis
    using floor_log_eq_powr_iff [OF assms(1), of 2 e] assms(2,3) by simp
qed

lemma rnd_eval:
  assumes "0 < x" "2 powi e \<le> x" "x < 2 powi (e + 1)" "- 1022 \<le> e"
  shows "rnd x = of_int (rne (x / 2 powi (e - 52))) * 2 powi (e - 52)"
proof -
  have "binade x = e"
    using floor_log_unique [OF assms(1-3)] assms(1,4) by (simp add: binade_def)
  then show ?thesis using assms(1) by (simp add: rnd_def)
qed

lemma rne_minus: "rne (- y) = - rne y"
proof -
  let ?f = "\<lfloor>y\<rfloor>"
  have f: "of_int ?f \<le> y" "y < of_int ?f + 1" by linarith+
  consider (lo) "y - of_int ?f < 1 / 2" | (hi) "1 / 2 < y - of_int ?f" | (tie) "y - of_int ?f = 1 / 2"
    by linarith
  then show ?thesis
  proof cases
    case lo
    then have "rne y = ?f" by (simp add: rne_def Let_def)
    moreover have "rne (- y) = - ?f"
    proof (rule rne_eval)
      have "- real_of_int ?f - 1 / 2 < - y" using lo by linarith
      then show "real_of_int (- ?f) - 1 / 2 < - y" by simp
      have "- y < - real_of_int ?f + 1 / 2" using f by linarith
      then show "- y < real_of_int (- ?f) + 1 / 2" by simp
    qed
    ultimately show ?thesis by simp
  next
    case hi
    then have "rne y = ?f + 1" by (simp add: rne_def Let_def)
    moreover have "rne (- y) = - (?f + 1)"
    proof (rule rne_eval)
      have "- (real_of_int ?f + 1) - 1 / 2 < - y" using f by linarith
      then show "real_of_int (- (?f + 1)) - 1 / 2 < - y" by simp
      have "- y < - (real_of_int ?f + 1) + 1 / 2" using hi by linarith
      then show "- y < real_of_int (- (?f + 1)) + 1 / 2" by simp
    qed
    ultimately show ?thesis by simp
  next
    case tie
    show ?thesis
    proof (cases "even ?f")
      case True
      then have "rne y = ?f" using tie by (simp add: rne_def Let_def)
      moreover have "- y = - real_of_int ?f - 1 / 2" using tie by linarith
      then have "- y = real_of_int (- ?f) - 1 / 2" by simp
      then have "rne (- y) = - ?f"
        using True by (intro rne_tie_even) simp_all
      ultimately show ?thesis by simp
    next
      case False
      then have "rne y = ?f + 1" using tie by (simp add: rne_def Let_def)
      moreover have "- y = - (real_of_int ?f + 1) + 1 / 2" using tie by linarith
      then have "- y = real_of_int (- (?f + 1)) + 1 / 2" by simp
      then have "rne (- y) = - (?f + 1)"
        using False by (intro rne_tie_even) simp_all
      ultimately show ?thesis by simp
    qed
  qed
qed

lemma binade_minus [simp]: "binade (- x) = binade x"
  by (simp add: binade_def)

lemma rnd_minus: "rnd (- x) = - rnd x"
  by (simp add: rnd_def rne_minus)

lemma pow2_split: "2 powi (a + b) = (2 :: real) powi a * 2 powi b"
  by (rule power_int_add) simp

lemma binade_ge: "- 1022 \<le> binade x"
  by (simp add: binade_def)

lemma below_next_binade: "x \<noteq> 0 \<Longrightarrow> \<bar>x\<bar> < 2 powi (binade x + 1)"
proof -
  assume nz: "x \<noteq> 0"
  have "\<bar>x\<bar> < 2 powi (\<lfloor>log 2 \<bar>x\<bar>\<rfloor> + 1)" using binade_bounds(2) [OF nz refl] .
  also have "\<dots> \<le> 2 powi (binade x + 1)"
    by (rule power_int_increasing) (simp_all add: binade_def)
  finally show ?thesis .
qed

lemma scaled_below: "x \<noteq> 0 \<Longrightarrow> \<bar>x / 2 powi (binade x - 52)\<bar> < 2 ^ 53"
proof -
  assume nz: "x \<noteq> 0"
  have "\<bar>x\<bar> < 2 powi (binade x + 1)" using nz by (rule below_next_binade)
  also have "\<dots> = 2 ^ 53 * 2 powi (binade x - 52)"
  proof -
    have "binade x + 1 = 53 + (binade x - 52)" by simp
    then have "(2 :: real) powi (binade x + 1) = 2 powi 53 * 2 powi (binade x - 52)"
      by (simp only: pow2_split)
    then show ?thesis by simp
  qed
  finally have "\<bar>x\<bar> / 2 powi (binade x - 52) < 2 ^ 53"
    by (simp add: pos_divide_less_eq)
  then show ?thesis by (simp add: abs_divide)
qed

lemma rnd_exact:
  assumes m: "\<bar>m\<bar> < 2 ^ 53" and j: "- 1074 \<le> j"
  shows "rnd (of_int m * 2 powi j) = of_int m * 2 powi j"
proof (cases "m = 0")
  case True
  then show ?thesis by simp
next
  case False
  let ?x = "real_of_int m * 2 powi j"
  have nz: "?x \<noteq> 0" using False by simp
  let ?e = "\<lfloor>log 2 \<bar>?x\<bar>\<rfloor>"
  have "\<bar>?x\<bar> = \<bar>real_of_int m\<bar> * 2 powi j" by (simp add: abs_mult)
  also have "\<dots> < 2 ^ 53 * 2 powi j"
  proof -
    have "real_of_int \<bar>m\<bar> < real_of_int (2 ^ 53)" using m by (simp only: of_int_less_iff)
    then have "\<bar>real_of_int m\<bar> < 2 ^ 53" by simp
    then show ?thesis by (simp add: mult_strict_right_mono)
  qed
  also have "\<dots> = 2 powi (53 + j)"
    by (simp add: pow2_split)
  finally have up: "\<bar>?x\<bar> < 2 powi (53 + j)" .
  have "2 powi ?e \<le> \<bar>?x\<bar>" using binade_bounds(1) [OF nz refl] .
  with up have "(2 :: real) powi ?e < 2 powi (53 + j)" by linarith
  then have "?e < 53 + j"
    by (metis linorder_not_le one_le_numeral power_int_increasing)
  then have b: "binade ?x \<le> 52 + j" using j by (simp add: binade_def)
  define k where "k = nat (j - (binade ?x - 52))"
  have kj: "j = (binade ?x - 52) + int k" using b by (simp add: k_def)
  define u :: real where "u = 2 powi (binade ?x - 52)"
  have upos: "0 < u" by (simp add: u_def)
  have "(2 :: real) powi ((binade ?x - 52) + int k) = u * 2 powi (int k)"
    unfolding u_def by (rule pow2_split)
  then have split: "2 powi j = u * 2 ^ k" using kj by simp
  have "?x / u = real_of_int m * (u * 2 ^ k) / u" by (simp only: split)
  also have "\<dots> = real_of_int (m * 2 ^ k)" using upos by simp
  finally have "rne (?x / u) = m * 2 ^ k" by (simp only: rne_of_int)
  then have "rnd ?x = real_of_int (m * 2 ^ k) * u"
    using nz unfolding rnd_def u_def by (simp del: of_int_mult of_int_power)
  also have "\<dots> = real_of_int m * (u * 2 ^ k)" by simp
  also have "\<dots> = ?x" by (simp only: split)
  finally show ?thesis .
qed

lemma rnd_form: "\<exists>m j. \<bar>m\<bar> < 2 ^ 53 \<and> - 1074 \<le> j \<and> rnd x = of_int m * 2 powi j"
proof (cases "x = 0")
  case True
  then show ?thesis by (intro exI [of _ 0] exI [of _ 0]) simp
next
  case False
  let ?u = "binade x - 52"
  let ?m = "rne (x / 2 powi ?u)"
  have r: "rnd x = of_int ?m * 2 powi ?u" using False by (simp add: rnd_def)
  have sc: "\<bar>x / 2 powi ?u\<bar> < 2 ^ 53" using False by (rule scaled_below)
  have "x / 2 powi ?u \<le> 2 ^ 53" "- (2 ^ 53) \<le> x / 2 powi ?u"
    using sc abs_ge_self [of "x / 2 powi ?u"] abs_ge_minus_self [of "x / 2 powi ?u"]
    by linarith+
  then have sc2: "x / 2 powi ?u \<le> real_of_int (2 ^ 53)"
    "real_of_int (- (2 ^ 53)) \<le> x / 2 powi ?u"
    by simp_all
  have "?m \<le> 2 ^ 53" using sc2(1) by (rule rne_le)
  moreover have "- (2 ^ 53) \<le> ?m" using sc2(2) by (rule rne_ge)
  ultimately have bound: "\<bar>?m\<bar> \<le> 2 ^ 53" by simp
  have u: "- 1074 \<le> ?u" using binade_ge [of x] by simp
  show ?thesis
  proof (cases "\<bar>?m\<bar> < 2 ^ 53")
    case True
    then show ?thesis using u r by blast
  next
    case False
    then have "?m = 2 ^ 53 \<or> ?m = - (2 ^ 53)" using bound by linarith
    then have "rnd x = of_int (?m div 2) * 2 powi (?u + 1)"
      using r power_int_add [of "2 :: real" ?u 1] by auto
    moreover have "\<bar>?m div 2\<bar> < 2 ^ 53" using \<open>?m = 2 ^ 53 \<or> ?m = - (2 ^ 53)\<close> by auto
    moreover have "- 1074 \<le> ?u + 1" using u by simp
    ultimately show ?thesis by blast
  qed
qed

lemma rnd_idem [simp]: "rnd (rnd x) = rnd x"
  using rnd_form [of x] rnd_exact by metis

lemma rnd_nonneg: "0 \<le> x \<Longrightarrow> 0 \<le> rnd x"
proof (cases "x = 0")
  case True
  then show ?thesis by simp
next
  case False
  assume "0 \<le> x"
  then have "0 \<le> x / 2 powi (binade x - 52)" by simp
  then have "0 \<le> rne (x / 2 powi (binade x - 52))" by (intro rne_ge) simp
  then show ?thesis using False by (simp add: rnd_def)
qed

lemma binade_mono: "0 < x \<Longrightarrow> x \<le> y \<Longrightarrow> binade x \<le> binade y"
proof -
  assume "0 < x" "x \<le> y"
  then have "log 2 \<bar>x\<bar> \<le> log 2 \<bar>y\<bar>" by simp
  then have "\<lfloor>log 2 \<bar>x\<bar>\<rfloor> \<le> \<lfloor>log 2 \<bar>y\<bar>\<rfloor>" by (rule floor_mono)
  then show ?thesis by (simp add: binade_def)
qed

lemma rnd_le_next_binade: "0 < x \<Longrightarrow> rnd x \<le> 2 powi (binade x + 1)"
proof -
  assume pos: "0 < x"
  let ?u = "binade x - 52"
  have "x / 2 powi ?u \<le> 2 ^ 53"
    using scaled_below [of x] pos abs_ge_self [of "x / 2 powi ?u"] by linarith
  then have "x / 2 powi ?u \<le> real_of_int (2 ^ 53)" by simp
  then have "rne (x / 2 powi ?u) \<le> 2 ^ 53" by (rule rne_le)
  then have "real_of_int (rne (x / 2 powi ?u)) \<le> real_of_int (2 ^ 53)"
    by (simp only: of_int_le_iff)
  then have "real_of_int (rne (x / 2 powi ?u)) * 2 powi ?u \<le> 2 ^ 53 * 2 powi ?u"
    by (simp add: mult_right_mono)
  also have "\<dots> = 2 powi (binade x + 1)"
  proof -
    have "binade x + 1 = 53 + ?u" by simp
    then have "(2 :: real) powi (binade x + 1) = 2 powi 53 * 2 powi ?u"
      by (simp only: pow2_split)
    then show ?thesis by simp
  qed
  finally show ?thesis using pos by (simp add: rnd_def)
qed

lemma rnd_ge_binade:
  assumes pos: "0 < x" and normal: "- 1022 < binade x"
  shows "2 powi (binade x) \<le> rnd x"
proof -
  let ?u = "binade x - 52"
  have e: "binade x = \<lfloor>log 2 \<bar>x\<bar>\<rfloor>" using normal by (simp add: binade_def max_def split: if_splits)
  have "2 powi (binade x) \<le> \<bar>x\<bar>"
    using binade_bounds(1) [of x "binade x"] pos e by simp
  then have lo: "2 powi (binade x) \<le> x" using pos by simp
  have "(2 :: real) powi (binade x) = 2 powi 52 * 2 powi ?u"
  proof -
    have "binade x = 52 + ?u" by simp
    then show ?thesis by (metis pow2_split)
  qed
  then have sp: "(2 :: real) powi (binade x) = 2 ^ 52 * 2 powi ?u" by simp
  then have "2 ^ 52 * 2 powi ?u \<le> x" using lo by simp
  then have "2 ^ 52 \<le> x / 2 powi ?u" by (simp add: pos_le_divide_eq)
  then have "real_of_int (2 ^ 52) \<le> x / 2 powi ?u" by simp
  then have "2 ^ 52 \<le> rne (x / 2 powi ?u)" by (rule rne_ge)
  then have "real_of_int (2 ^ 52) \<le> real_of_int (rne (x / 2 powi ?u))"
    by (simp only: of_int_le_iff)
  then have "2 ^ 52 * 2 powi ?u \<le> real_of_int (rne (x / 2 powi ?u)) * 2 powi ?u"
    by (simp add: mult_right_mono)
  then show ?thesis using pos sp by (simp add: rnd_def)
qed

lemma rnd_mono_pos:
  assumes pos: "0 < x" and le: "x \<le> y"
  shows "rnd x \<le> rnd y"
proof -
  have ypos: "0 < y" using pos le by simp
  have b: "binade x \<le> binade y" using pos le by (rule binade_mono)
  show ?thesis
  proof (cases "binade x = binade y")
    case True
    let ?u = "binade y - 52"
    have "x / 2 powi ?u \<le> y / 2 powi ?u" using le by (simp add: divide_right_mono)
    then have "rne (x / 2 powi ?u) \<le> rne (y / 2 powi ?u)" by (rule rne_mono)
    then have "real_of_int (rne (x / 2 powi ?u)) * 2 powi ?u
        \<le> real_of_int (rne (y / 2 powi ?u)) * 2 powi ?u"
      by (simp add: mult_right_mono)
    then show ?thesis using pos ypos True by (simp add: rnd_def)
  next
    case False
    then have lt: "binade x + 1 \<le> binade y" using b by simp
    have "rnd x \<le> 2 powi (binade x + 1)" using pos by (rule rnd_le_next_binade)
    also have "\<dots> \<le> 2 powi (binade y)" using lt by (intro power_int_increasing) simp_all
    also have "\<dots> \<le> rnd y"
      using ypos lt binade_ge [of x] by (intro rnd_ge_binade) simp_all
    finally show ?thesis .
  qed
qed

lemma rnd_mono: "x \<le> y \<Longrightarrow> rnd x \<le> rnd y"
proof -
  assume le: "x \<le> y"
  consider (pos) "0 < x" | (neg) "y < 0" | (mid) "x \<le> 0" "0 \<le> y" by linarith
  then show ?thesis
  proof cases
    case pos
    then show ?thesis using le by (rule rnd_mono_pos)
  next
    case neg
    then have "rnd (- y) \<le> rnd (- x)" using le by (intro rnd_mono_pos) simp_all
    then show ?thesis by (simp add: rnd_minus)
  next
    case mid
    have "0 \<le> rnd (- x)" using mid(1) by (intro rnd_nonneg) simp
    then have "rnd x \<le> 0" by (simp add: rnd_minus)
    moreover have "0 \<le> rnd y" using mid(2) by (rule rnd_nonneg)
    ultimately show ?thesis by simp
  qed
qed

lemma rnd_of_int: "\<bar>k\<bar> < 2 ^ 53 \<Longrightarrow> rnd (of_int k) = of_int k"
  using rnd_exact [of k 0] by simp

lemma rnd_pow2: "rnd (2 ^ n) = 2 ^ n"
  using rnd_exact [of 1 "int n"] by simp

lemma rnd_numeral [simp]: "numeral n < (9007199254740992 :: int) \<Longrightarrow> rnd (numeral n) = numeral n"
  using rnd_of_int [of "numeral n"] by simp

lemma rnd_neg_numeral [simp]:
  "numeral n < (9007199254740992 :: int) \<Longrightarrow> rnd (- numeral n) = - numeral n"
  using rnd_of_int [of "- numeral n"] by simp

lemma rnd_1 [simp]: "rnd 1 = 1"
  using rnd_of_int [of 1] by simp

lemma rnd_le_pow2: "x \<le> 2 ^ n \<Longrightarrow> rnd x \<le> 2 ^ n"
  using rnd_mono [of x "2 ^ n"] by (simp add: rnd_pow2)

lemma rnd_ge_1: "1 \<le> x \<Longrightarrow> 1 \<le> rnd x"
  using rnd_mono [of 1 x] by simp

text \<open>Evaluating a rounding at a concrete value: the binade and the nearest integer are given.\<close>

lemma rnd_eval_near:
  assumes "2 powi e \<le> x" "x < 2 powi (e + 1)" "- 1022 \<le> e"
    and "real_of_int m - 1 / 2 < x / 2 powi (e - 52)" "x / 2 powi (e - 52) < real_of_int m + 1 / 2"
  shows "rnd x = real_of_int m * 2 powi (e - 52)"
proof -
  have pos: "0 < x" using assms(1) zero_less_power_int [of "2 :: real" e] by linarith
  have "rne (x / 2 powi (e - 52)) = m" using assms(4,5) by (rule rne_eval)
  then show ?thesis using rnd_eval [OF pos assms(1-3)] by simp
qed

lemma rnd_eval_tie:
  assumes "2 powi e \<le> x" "x < 2 powi (e + 1)" "- 1022 \<le> e"
    and "even m"
    and "x / 2 powi (e - 52) = real_of_int m + 1 / 2 \<or> x / 2 powi (e - 52) = real_of_int m - 1 / 2"
  shows "rnd x = real_of_int m * 2 powi (e - 52)"
proof -
  have pos: "0 < x" using assms(1) zero_less_power_int [of "2 :: real" e] by linarith
  have "rne (x / 2 powi (e - 52)) = m" using assms(4,5) by (rule rne_tie_even)
  then show ?thesis using rnd_eval [OF pos assms(1-3)] by simp
qed

lemma rnd_sqrt_eval:
  assumes e: "- 1022 \<le> e" and m: "1 \<le> m"
    and lo: "(2 powi e)\<^sup>2 \<le> s" and hi: "s < (2 powi (e + 1))\<^sup>2"
    and below: "((real_of_int m - 1 / 2) * 2 powi (e - 52))\<^sup>2 < s"
    and above: "s < ((real_of_int m + 1 / 2) * 2 powi (e - 52))\<^sup>2"
  shows "rnd (sqrt s) = real_of_int m * 2 powi (e - 52)"
proof (rule rnd_eval_near [OF _ _ e])
  have u: "0 < (2 :: real) powi (e - 52)" by simp
  have m': "0 \<le> real_of_int m - 1 / 2" using m by simp
  show "2 powi e \<le> sqrt s" using lo by (intro real_le_rsqrt)
  show "sqrt s < 2 powi (e + 1)" using hi by (intro real_less_lsqrt) simp_all
  have "(real_of_int m - 1 / 2) * 2 powi (e - 52) < sqrt s"
    using below m' by (intro real_less_rsqrt)
  then show "real_of_int m - 1 / 2 < sqrt s / 2 powi (e - 52)"
    using u by (simp add: pos_less_divide_eq)
  have "sqrt s < (real_of_int m + 1 / 2) * 2 powi (e - 52)"
    using above m by (intro real_less_lsqrt) simp_all
  then show "sqrt s / 2 powi (e - 52) < real_of_int m + 1 / 2"
    using u by (simp add: pos_divide_less_eq)
qed

section \<open>Properties of generateReferenceTrack\<close>

lemma referencePoint_first:
  "referencePoint cv lapLocations cumulativeDistances startPoint trackLength distToStart 0 = startPoint"
  by (simp add: referencePoint_def)

lemma referencePoint_last:
  "referencePoint cv lapLocations cumulativeDistances startPoint trackLength distToStart 143 = startPoint"
  by (simp add: referencePoint_def)

text \<open>
  Claim C1. With at least 144 samples, \<open>generateReferenceTrack\<close> returns a reference track of
  exactly 144 points whose first and last points are the given start point; with fewer than
  144 samples it returns the error asking for at least 144 locations.
\<close>

theorem generateReferenceTrack_closed_loop:
  "(length locations < 144 \<longrightarrow>
      generateReferenceTrack cv locations startPoint = Inl NeedAtLeast144Locations) \<and>
   (144 \<le> length locations \<longrightarrow>
      (\<exists>track. generateReferenceTrack cv locations startPoint = Inr track \<and>
         StartPoint track = startPoint \<and>
         length (Points track) = 144 \<and>
         Points track ! 0 = startPoint \<and>
         Points track ! 143 = startPoint))"
proof (intro conjI impI)
  assume "length locations < 144"
  then show "generateReferenceTrack cv locations startPoint = Inl NeedAtLeast144Locations"
    by (simp add: generateReferenceTrack_def)
next
  assume enough: "144 \<le> length locations"
  define lapLocations where
    "lapLocations = lapLocationsOf locations (TrackPoint.X startPoint) (TrackPoint.Y startPoint)"
  define cumulativeDistances where "cumulativeDistances = cumulativeDistancesOf lapLocations"
  define distToStart where
    "distToStart = distance2D (Location.X (last lapLocations)) (Location.Y (last lapLocations))
       (TrackPoint.X startPoint) (TrackPoint.Y startPoint)"
  define pt where
    "pt = referencePoint cv lapLocations cumulativeDistances startPoint
            (rnd (last cumulativeDistances + distToStart)) distToStart"
  have res: "generateReferenceTrack cv locations startPoint =
      Inr \<lparr>StartPoint = startPoint, Points = map pt [0..<144]\<rparr>"
    using enough
    by (simp add: generateReferenceTrack_def Let_def lapLocations_def cumulativeDistances_def
        distToStart_def pt_def)
  have p0: "map pt [0..<144] ! 0 = startPoint"
    by (simp add: pt_def referencePoint_first del: upt_Suc)
  have p143: "map pt [0..<144] ! 143 = startPoint"
    by (simp add: pt_def referencePoint_last del: upt_Suc)
  show "\<exists>track. generateReferenceTrack cv locations startPoint = Inr track \<and>
         StartPoint track = startPoint \<and>
         length (Points track) = 144 \<and>
         Points track ! 0 = startPoint \<and>
         Points track ! 143 = startPoint"
    using res p0 p143 by simp
qed

theorem generateReferenceTrack_closed_loop_witness:
  "length ([] :: Location list) < 144 \<and>
   generateReferenceTrack (\<lambda>v. 0) [] \<lparr>TrackPoint.X = 5, Y = 7, Z = 9\<rparr> = Inl NeedAtLeast144Locations \<and>
   144 \<le> length (replicate 150
      \<lparr>Date = ''d'', DriverNumber = 44, MeetingKey = 1, SessionKey = 2, X = 3, Y = 4, Z = 5\<rparr>) \<and>
   (\<exists>track. generateReferenceTrack (\<lambda>v. 0) (replicate 150
        \<lparr>Date = ''d'', DriverNumber = 44, MeetingKey = 1, SessionKey = 2, X = 3, Y = 4, Z = 5\<rparr>)
        \<lparr>TrackPoint.X = 5, Y = 7, Z = 9\<rparr> = Inr track \<and>
      StartPoint track = \<lparr>TrackPoint.X = 5, Y = 7, Z = 9\<rparr> \<and>
      length (Points track) = 144 \<and>
      Points track ! 0 = \<lparr>TrackPoint.X = 5, Y = 7, Z = 9\<rparr> \<and>
      Points track ! 143 = \<lparr>TrackPoint.X = 5, Y = 7, Z = 9\<rparr>)"
  using generateReferenceTrack_closed_loop [of "[]" "\<lambda>v. 0" "\<lparr>TrackPoint.X = 5, Y = 7, Z = 9\<rparr>"]
    generateReferenceTrack_closed_loop [of "replicate 150
      \<lparr>Date = ''d'', DriverNumber = 44, MeetingKey = 1, SessionKey = 2, X = 3, Y = 4, Z = 5\<rparr>"
      "\<lambda>v. 0" "\<lparr>TrackPoint.X = 5, Y = 7, Z = 9\<rparr>"]
  by simp

subsection \<open>Lap detection\<close>








section \<open>Properties of mapLocationToIndex\<close>

lemma float64OfInt_0 [simp]: "float64OfInt 0 = 0"
  by (simp add: float64OfInt_def)

lemma float64OfInt_bound: "\<bar>float64OfInt w\<bar> \<le> 2 ^ 63"
proof -
  have "- (2 ^ 63) \<le> sint w" "sint w < 2 ^ 63"
    using sint_ge [of w] sint_lt [of w] by simp_all
  then have "real_of_int (- (2 ^ 63)) \<le> real_of_int (sint w)"
    "real_of_int (sint w) \<le> real_of_int (2 ^ 63)"
    by (simp_all only: of_int_le_iff)
  then have lo: "- (2 ^ 63) \<le> real_of_int (sint w)" and hi: "real_of_int (sint w) \<le> 2 ^ 63"
    by simp_all
  have "rnd (real_of_int (sint w)) \<le> 2 ^ 63" using hi by (rule rnd_le_pow2)
  moreover have "rnd (- real_of_int (sint w)) \<le> 2 ^ 63"
    using lo by (intro rnd_le_pow2) simp
  ultimately show ?thesis by (simp add: float64OfInt_def rnd_minus abs_le_iff)
qed

lemma float64OfInt_away: "w \<noteq> 0 \<Longrightarrow> 1 \<le> \<bar>float64OfInt w\<bar>"
proof -
  assume "w \<noteq> 0"
  then have "sint w \<noteq> 0" by (simp add: signed_eq_0_iff)
  then consider "1 \<le> sint w" | "1 \<le> - sint w" by linarith
  then show ?thesis
  proof cases
    case 1
    then have "real_of_int 1 \<le> real_of_int (sint w)" by (simp only: of_int_le_iff)
    then have "1 \<le> real_of_int (sint w)" by (simp del: of_int_sint)
    then have "1 \<le> rnd (real_of_int (sint w))" by (rule rnd_ge_1)
    then show ?thesis by (simp add: float64OfInt_def)
  next
    case 2
    then have "real_of_int 1 \<le> real_of_int (- sint w)" by (simp only: of_int_le_iff)
    then have "1 \<le> - real_of_int (sint w)" by (simp del: of_int_sint)
    then have "1 \<le> rnd (- real_of_int (sint w))" by (rule rnd_ge_1)
    then show ?thesis by (simp add: float64OfInt_def rnd_minus)
  qed
qed

lemma square_le_pow: "\<bar>a\<bar> \<le> 2 ^ 63 \<Longrightarrow> a * a \<le> (2 :: real) ^ 126"
proof -
  assume "\<bar>a\<bar> \<le> 2 ^ 63"
  then have "\<bar>a\<bar> * \<bar>a\<bar> \<le> 2 ^ 63 * 2 ^ 63" by (intro mult_mono) simp_all
  then show ?thesis by (simp add: abs_mult_self_eq)
qed

lemma square_ge_1: "1 \<le> \<bar>a\<bar> \<Longrightarrow> 1 \<le> a * (a :: real)"
proof -
  assume "1 \<le> \<bar>a\<bar>"
  then have "1 * 1 \<le> \<bar>a\<bar> * \<bar>a\<bar>" by (intro mult_mono) simp_all
  then show ?thesis by (simp add: abs_mult_self_eq)
qed

lemma distance2D_nonneg: "0 \<le> distance2D x1 y1 x2 y2"
proof -
  let ?dx = "float64OfInt (x2 - x1)"
  let ?dy = "float64OfInt (y2 - y1)"
  have "0 \<le> rnd (?dx * ?dx)" "0 \<le> rnd (?dy * ?dy)" by (simp_all add: rnd_nonneg)
  then have "0 \<le> rnd (rnd (?dx * ?dx) + rnd (?dy * ?dy))" by (intro rnd_nonneg) simp
  then have "0 \<le> sqrt (rnd (rnd (?dx * ?dx) + rnd (?dy * ?dy)))" by simp
  then show ?thesis by (simp add: distance2D_def Let_def rnd_nonneg)
qed

lemma distance2D_below_max: "distance2D x1 y1 x2 y2 < MaxFloat64"
proof -
  let ?dx = "float64OfInt (x2 - x1)"
  let ?dy = "float64OfInt (y2 - y1)"
  have "?dx * ?dx \<le> 2 ^ 126" "?dy * ?dy \<le> 2 ^ 126"
    by (rule square_le_pow, rule float64OfInt_bound)+
  then have "rnd (?dx * ?dx) \<le> 2 ^ 126" "rnd (?dy * ?dy) \<le> 2 ^ 126"
    using rnd_le_pow2 [of "?dx * ?dx" 126] rnd_le_pow2 [of "?dy * ?dy" 126] by simp_all
  then have "rnd (?dx * ?dx) + rnd (?dy * ?dy) \<le> 2 ^ 127" by simp
  then have "rnd (rnd (?dx * ?dx) + rnd (?dy * ?dy)) \<le> 2 ^ 127" by (rule rnd_le_pow2)
  also have "(2 :: real) ^ 127 \<le> (2 ^ 64)\<^sup>2" by simp
  finally have "sqrt (rnd (rnd (?dx * ?dx) + rnd (?dy * ?dy))) \<le> 2 ^ 64"
    by (rule real_le_lsqrt [rotated 1]) simp_all
  then have "distance2D x1 y1 x2 y2 \<le> 2 ^ 64"
    unfolding distance2D_def Let_def by (rule rnd_le_pow2)
  moreover have "(2 :: real) ^ 64 < MaxFloat64" by (simp add: MaxFloat64_def)
  ultimately show ?thesis by simp
qed

lemma distance2D_zero_iff: "distance2D x1 y1 x2 y2 = 0 \<longleftrightarrow> x2 = x1 \<and> y2 = y1"
proof
  assume "x2 = x1 \<and> y2 = y1"
  then show "distance2D x1 y1 x2 y2 = 0" by (simp add: distance2D_def)
next
  assume zero: "distance2D x1 y1 x2 y2 = 0"
  let ?dx = "float64OfInt (x2 - x1)"
  let ?dy = "float64OfInt (y2 - y1)"
  have nn: "0 \<le> rnd (?dx * ?dx)" "0 \<le> rnd (?dy * ?dy)" by (simp_all add: rnd_nonneg)
  show "x2 = x1 \<and> y2 = y1"
  proof (rule ccontr)
    assume "\<not> (x2 = x1 \<and> y2 = y1)"
    then have "x2 - x1 \<noteq> 0 \<or> y2 - y1 \<noteq> 0" by simp
    then have "1 \<le> rnd (?dx * ?dx) \<or> 1 \<le> rnd (?dy * ?dy)"
      using float64OfInt_away by (auto intro!: rnd_ge_1 square_ge_1)
    then have "1 \<le> rnd (?dx * ?dx) + rnd (?dy * ?dy)" using nn by linarith
    then have "1 \<le> rnd (rnd (?dx * ?dx) + rnd (?dy * ?dy))" by (rule rnd_ge_1)
    then have "1 \<le> sqrt (rnd (rnd (?dx * ?dx) + rnd (?dy * ?dy)))" by simp
    then have "1 \<le> distance2D x1 y1 x2 y2"
      unfolding distance2D_def Let_def by (rule rnd_ge_1)
    then show False using zero by simp
  qed
qed

lemma closestLoop_none:
  "\<forall>p \<in> set ps. \<not> planarDistance location p < m \<Longrightarrow> closestLoop location ps i m c = c"
  by (induction ps arbitrary: i) (simp_all add: planarDistance_def Let_def)

lemma closestLoop_some:
  "\<exists>p \<in> set ps. planarDistance location p < m \<Longrightarrow>
   i \<le> closestLoop location ps i m c \<and>
   closestLoop location ps i m c < i + length ps \<and>
   planarDistance location (ps ! (closestLoop location ps i m c - i)) < m \<and>
   (\<forall>j < length ps. planarDistance location (ps ! (closestLoop location ps i m c - i))
        \<le> planarDistance location (ps ! j)) \<and>
   (\<forall>j < closestLoop location ps i m c - i.
      planarDistance location (ps ! (closestLoop location ps i m c - i))
        < planarDistance location (ps ! j))"
proof (induction ps arbitrary: i m c)
  case Nil
  then show ?case by simp
next
  case (Cons p ps)
  let ?d = "planarDistance location"
  show ?case
  proof (cases "?d p < m")
    case True
    then have step: "closestLoop location (p # ps) i m c = closestLoop location ps (i + 1) (?d p) i"
      by (simp add: planarDistance_def Let_def)
    show ?thesis
    proof (cases "\<exists>q \<in> set ps. ?d q < ?d p")
      case False
      then have r: "closestLoop location ps (i + 1) (?d p) i = i"
        by (intro closestLoop_none) simp
      have "\<forall>j < length (p # ps). ?d p \<le> ?d ((p # ps) ! j)"
        using False by (auto simp: nth_Cons not_less split: nat.splits)
      then show ?thesis unfolding step r using True by simp
    next
      case some: True
      define r where "r = closestLoop location ps (i + 1) (?d p) i"
      from Cons.IH [OF some, of "i + 1" i]
      have ih: "i + 1 \<le> r" "r < i + 1 + length ps" "?d (ps ! (r - (i + 1))) < ?d p"
        "\<forall>j < length ps. ?d (ps ! (r - (i + 1))) \<le> ?d (ps ! j)"
        "\<forall>j < r - (i + 1). ?d (ps ! (r - (i + 1))) < ?d (ps ! j)"
        by (simp_all add: r_def)
      have idx: "(p # ps) ! (r - i) = ps ! (r - (i + 1))"
        using ih(1) by (simp add: nth_Cons split: nat.splits) (metis Suc_diff_Suc Suc_le_lessD diff_Suc_1)
      have a: "\<forall>j < length (p # ps). ?d (ps ! (r - (i + 1))) \<le> ?d ((p # ps) ! j)"
        using ih(3,4) by (auto simp: nth_Cons split: nat.splits)
      have b: "\<forall>j < r - i. ?d (ps ! (r - (i + 1))) < ?d ((p # ps) ! j)"
      proof (intro allI impI)
        fix j assume "j < r - i"
        then show "?d (ps ! (r - (i + 1))) < ?d ((p # ps) ! j)"
          using ih(3,5) by (cases j) auto
      qed
      have res: "closestLoop location (p # ps) i m c = r" by (simp only: step r_def)
      show ?thesis
        unfolding res idx using ih(1,2,3) True a b by simp
    qed
  next
    case False
    then have step: "closestLoop location (p # ps) i m c = closestLoop location ps (i + 1) m c"
      by (simp add: planarDistance_def Let_def)
    from Cons.prems False have some: "\<exists>q \<in> set ps. ?d q < m" by auto
    define r where "r = closestLoop location ps (i + 1) m c"
    from Cons.IH [OF some, of "i + 1" c]
    have ih: "i + 1 \<le> r" "r < i + 1 + length ps" "?d (ps ! (r - (i + 1))) < m"
      "\<forall>j < length ps. ?d (ps ! (r - (i + 1))) \<le> ?d (ps ! j)"
      "\<forall>j < r - (i + 1). ?d (ps ! (r - (i + 1))) < ?d (ps ! j)"
      by (simp_all add: r_def)
    have idx: "(p # ps) ! (r - i) = ps ! (r - (i + 1))"
      using ih(1) by (simp add: nth_Cons split: nat.splits) (metis Suc_diff_Suc Suc_le_lessD diff_Suc_1)
    have a: "\<forall>j < length (p # ps). ?d (ps ! (r - (i + 1))) \<le> ?d ((p # ps) ! j)"
      using ih(3,4) False by (auto simp: nth_Cons split: nat.splits)
    have b: "\<forall>j < r - i. ?d (ps ! (r - (i + 1))) < ?d ((p # ps) ! j)"
    proof (intro allI impI)
      fix j assume "j < r - i"
      then show "?d (ps ! (r - (i + 1))) < ?d ((p # ps) ! j)"
        using ih(3,5) False by (cases j) auto
    qed
    have res: "closestLoop location (p # ps) i m c = r" by (simp only: step r_def)
    show ?thesis
      unfolding res idx using ih(1,2,3) a b by simp
  qed
qed


lemma planarDistance_zero_iff:
  "planarDistance location p = 0 \<longleftrightarrow>
     TrackPoint.X p = Location.X location \<and> TrackPoint.Y p = Location.Y location"
  by (simp add: planarDistance_def distance2D_zero_iff)

text \<open>
  The distances of \<open>farTrack\<close> from the origin: \<open>sqrt (2^52 + 1)\<close> lies less than half a unit
  in the last place above \<open>2^26\<close>, so the distance computed for point 0 is \<open>2^26\<close>, the
  distance of the other points.
\<close>

lemma rnd_sqrt_far: "rnd (sqrt 4503599627370497) = 67108864"
  using rnd_sqrt_eval [of 26 4503599627370496 4503599627370497]
  by (simp add: power_int_minus power2_eq_square)

lemma farTrack_point0: "planarDistance (sampleAt 0 0) \<lparr>TrackPoint.X = 67108864, Y = 1, Z = 0\<rparr> = 67108864"
  by (simp add: planarDistance_def sampleAt_def distance2D_def float64OfInt_def rnd_sqrt_far)

lemma farTrack_others: "planarDistance (sampleAt 0 0) \<lparr>TrackPoint.X = 67108864, Y = 0, Z = 0\<rparr> = 67108864"
  by (simp add: planarDistance_def sampleAt_def distance2D_def float64OfInt_def)

text \<open>
  Claim C2, as stated, fails. Point 0 of \<open>farTrack\<close> is farther from the origin than point 1,
  but both distances round to the same \<open>float64\<close>, the strict comparison keeps index 0, and
  \<open>mapLocationToIndex\<close> returns 0, an index that does not minimise the planar distance.
\<close>

theorem nearest_point_counterexample:
  "length (Points farTrack) = 144 \<and>
   mapLocationToIndex (sampleAt 0 0) farTrack = 0 \<and>
   exactDistance (sampleAt 0 0) (Points farTrack ! 1)
     < exactDistance (sampleAt 0 0) (Points farTrack ! 0)"
proof -
  let ?p0 = "\<lparr>TrackPoint.X = 67108864, Y = 1, Z = 0\<rparr>"
  let ?p1 = "\<lparr>TrackPoint.X = 67108864, Y = 0, Z = 0\<rparr>"
  have len: "length (Points farTrack) = 144" by (simp add: farTrack_def)
  have first: "closestLoop (sampleAt 0 0) (?p0 # replicate 143 ?p1) 0 MaxFloat64 0 =
      closestLoop (sampleAt 0 0) (replicate 143 ?p1) 1 67108864 0"
    using farTrack_point0 by (simp add: planarDistance_def MaxFloat64_def)
  have rest: "closestLoop (sampleAt 0 0) (replicate 143 ?p1) i 67108864 0 = 0" for i
    by (rule closestLoop_none) (simp add: farTrack_others)
  have "mapLocationToIndex (sampleAt 0 0) farTrack = 0"
    by (simp add: mapLocationToIndex_def farTrack_def first rest del: closestLoop.simps)
  moreover have "exactDistance (sampleAt 0 0) (Points farTrack ! 1)
      < exactDistance (sampleAt 0 0) (Points farTrack ! 0)"
  proof -
    have "(67108864 :: real) < sqrt 4503599627370497" by (rule real_less_rsqrt) simp
    then show ?thesis by (simp add: exactDistance_def farTrack_def sampleAt_def)
  qed
  ultimately show ?thesis using len by simp
qed

text \<open>
  Claim C2, amended. The distance that is minimised is the one the code computes,
  \<open>distance2D\<close> in \<open>float64\<close>. On a track of exactly 144 points \<open>mapLocationToIndex\<close> returns
  an index below 144 whose point minimises this computed distance to the sample, and every
  point at a lower index is strictly farther by it: it is the lowest index among the
  minimisers. In particular, if the sample has the X and Y coordinates of point \<open>k\<close>, the
  result is the lowest index whose point has these coordinates (so it is at most \<open>k\<close>). On
  a track whose number of points is not 144 the result is 0.
\<close>

theorem mapLocationToIndex_nearest:
  "(length (Points track) \<noteq> 144 \<longrightarrow> mapLocationToIndex location track = 0) \<and>
   (length (Points track) = 144 \<longrightarrow>
      mapLocationToIndex location track < 144 \<and>
      (\<forall>j < 144. planarDistance location (Points track ! mapLocationToIndex location track)
           \<le> planarDistance location (Points track ! j)) \<and>
      (\<forall>j < mapLocationToIndex location track.
           planarDistance location (Points track ! mapLocationToIndex location track)
           < planarDistance location (Points track ! j)) \<and>
      (\<forall>k < 144.
           TrackPoint.X (Points track ! k) = Location.X location \<and>
           TrackPoint.Y (Points track ! k) = Location.Y location \<longrightarrow>
           mapLocationToIndex location track \<le> k \<and>
           TrackPoint.X (Points track ! mapLocationToIndex location track) = Location.X location \<and>
           TrackPoint.Y (Points track ! mapLocationToIndex location track) = Location.Y location \<and>
           (\<forall>j < mapLocationToIndex location track.
              \<not> (TrackPoint.X (Points track ! j) = Location.X location \<and>
                 TrackPoint.Y (Points track ! j) = Location.Y location))))"
proof (intro conjI impI)
  assume "length (Points track) \<noteq> 144"
  then show "mapLocationToIndex location track = 0"
    by (simp add: mapLocationToIndex_def)
next
  assume len: "length (Points track) = 144"
  let ?ps = "Points track"
  let ?d = "planarDistance location"
  define r where "r = mapLocationToIndex location track"
  have r: "r = closestLoop location ?ps 0 MaxFloat64 0"
    using len by (simp add: r_def mapLocationToIndex_def)
  have "?ps \<noteq> []" using len by auto
  then obtain p where "p \<in> set ?ps" by (cases ?ps) auto
  moreover have "?d p < MaxFloat64"
    by (simp add: planarDistance_def distance2D_below_max)
  ultimately have some: "\<exists>p \<in> set ?ps. ?d p < MaxFloat64" by blast
  from closestLoop_some [OF some, of 0 0]
  have bound: "r < 144"
    and least: "\<forall>j < 144. ?d (?ps ! r) \<le> ?d (?ps ! j)"
    and first: "\<forall>j < r. ?d (?ps ! r) < ?d (?ps ! j)"
    using len by (simp_all add: r [symmetric])
  have nonneg: "0 \<le> ?d q" for q
    by (simp add: planarDistance_def distance2D_nonneg)
  have hit: "r \<le> k \<and> TrackPoint.X (?ps ! r) = Location.X location \<and>
      TrackPoint.Y (?ps ! r) = Location.Y location \<and>
      (\<forall>j < r. \<not> (TrackPoint.X (?ps ! j) = Location.X location \<and>
                 TrackPoint.Y (?ps ! j) = Location.Y location))"
    if k: "k < 144"
      and at: "TrackPoint.X (?ps ! k) = Location.X location \<and>
               TrackPoint.Y (?ps ! k) = Location.Y location" for k
  proof -
    have dk: "?d (?ps ! k) = 0" using at by (simp add: planarDistance_zero_iff)
    have "?d (?ps ! r) \<le> 0" using least k dk by metis
    then have dr: "?d (?ps ! r) = 0" using nonneg [of "?ps ! r"] by linarith
    have "r \<le> k"
    proof (rule ccontr)
      assume "\<not> r \<le> k"
      then have "?d (?ps ! r) < ?d (?ps ! k)" using first by simp
      then show False using dr dk by simp
    qed
    moreover have "\<not> (TrackPoint.X (?ps ! j) = Location.X location \<and>
                 TrackPoint.Y (?ps ! j) = Location.Y location)" if "j < r" for j
    proof
      assume "TrackPoint.X (?ps ! j) = Location.X location \<and>
                 TrackPoint.Y (?ps ! j) = Location.Y location"
      then have "?d (?ps ! j) = 0" by (simp add: planarDistance_zero_iff)
      then show False using first that dr by fastforce
    qed
    ultimately show ?thesis using dr by (simp add: planarDistance_zero_iff)
  qed
  show "mapLocationToIndex location track < 144" using bound by (simp add: r_def)
  show "\<forall>j < 144. ?d (?ps ! mapLocationToIndex location track) \<le> ?d (?ps ! j)"
    using least by (simp add: r_def)
  show "\<forall>j < mapLocationToIndex location track.
      ?d (?ps ! mapLocationToIndex location track) < ?d (?ps ! j)"
    using first by (simp add: r_def)
  show "\<forall>k < 144.
           TrackPoint.X (Points track ! k) = Location.X location \<and>
           TrackPoint.Y (Points track ! k) = Location.Y location \<longrightarrow>
           mapLocationToIndex location track \<le> k \<and>
           TrackPoint.X (Points track ! mapLocationToIndex location track) = Location.X location \<and>
           TrackPoint.Y (Points track ! mapLocationToIndex location track) = Location.Y location \<and>
           (\<forall>j < mapLocationToIndex location track.
              \<not> (TrackPoint.X (Points track ! j) = Location.X location \<and>
                 TrackPoint.Y (Points track ! j) = Location.Y location))"
    using hit unfolding r_def by blast
qed

theorem mapLocationToIndex_nearest_witness:
  "length (Points straightTrack) = 144 \<and>
   mapLocationToIndex (sampleAt 30 40) straightTrack = 5 \<and>
   length (Points (straightTrack\<lparr>Points := []\<rparr>)) \<noteq> 144 \<and>
   mapLocationToIndex (sampleAt 30 40) (straightTrack\<lparr>Points := []\<rparr>) = 0"
proof -
  let ?r = "mapLocationToIndex (sampleAt 30 40) straightTrack"
  have len: "length (Points straightTrack) = 144" by (simp add: straightTrack_def)
  have at5: "TrackPoint.X (Points straightTrack ! 5) = Location.X (sampleAt 30 40) \<and>
             TrackPoint.Y (Points straightTrack ! 5) = Location.Y (sampleAt 30 40)"
    by (simp add: straightTrack_def sampleAt_def pointAt_def nth_append)
  note inst = mapLocationToIndex_nearest [of straightTrack "sampleAt 30 40",
      THEN conjunct2, THEN mp, OF len]
  then have "\<forall>k < 144.
      TrackPoint.X (Points straightTrack ! k) = Location.X (sampleAt 30 40) \<and>
      TrackPoint.Y (Points straightTrack ! k) = Location.Y (sampleAt 30 40) \<longrightarrow>
      ?r \<le> k \<and> TrackPoint.X (Points straightTrack ! ?r) = Location.X (sampleAt 30 40)"
    by blast
  from this [rule_format, of 5] at5
  have le: "?r \<le> 5"
    and x: "TrackPoint.X (Points straightTrack ! ?r) = Location.X (sampleAt 30 40)"
    by simp_all
  have "?r = 5"
  proof (rule ccontr)
    assume "?r \<noteq> 5"
    then have "?r < 5" using le by simp
    then have "Points straightTrack ! ?r = pointAt 0 0"
      by (simp add: straightTrack_def nth_append)
    then show False using x by (simp add: pointAt_def sampleAt_def)
  qed
  moreover have "mapLocationToIndex (sampleAt 30 40) (straightTrack\<lparr>Points := []\<rparr>) = 0"
    using mapLocationToIndex_nearest [of "straightTrack\<lparr>Points := []\<rparr>" "sampleAt 30 40"]
    by simp
  ultimately show ?thesis using len by simp
qed

text \<open>The same result, by running the loop.\<close>

lemma mapLocationToIndex_straightTrack: "mapLocationToIndex (sampleAt 30 40) straightTrack = 5"
  by (simp add: mapLocationToIndex_def straightTrack_def sampleAt_def pointAt_def distance2D_def
      float64OfInt_def MaxFloat64_def numeral_eq_Suc)

section \<open>Properties of mapLocationsToIndices\<close>

subsection \<open>Cumulative distances\<close>

lemma cumulativeLoop_length [simp]: "length (cumulativeLoop t prev ls) = length ls"
  by (induction ls arbitrary: t prev) (simp_all add: Let_def)

lemma cumulativeDistancesOf_length [simp]:
  "length (cumulativeDistancesOf locations) = length locations"
  by (simp add: cumulativeDistancesOf_def split: list.splits)

lemma cumulativeLoop_sorted: "rnd t = t \<Longrightarrow> sorted (t # cumulativeLoop t prev ls)"
proof (induction ls arbitrary: t prev)
  case Nil
  then show ?case by simp
next
  case (Cons l ls)
  let ?t' = "rnd (t + distance2D (Location.X prev) (Location.Y prev) (Location.X l) (Location.Y l))"
  have "rnd t \<le> ?t'"
    using distance2D_nonneg [of "Location.X prev" "Location.Y prev" "Location.X l" "Location.Y l"]
    by (intro rnd_mono) simp
  then have "t \<le> ?t'" using Cons.prems by simp
  moreover have "sorted (?t' # cumulativeLoop ?t' l ls)" by (rule Cons.IH) simp
  ultimately show ?case by (auto simp: Let_def)
qed

lemma cumulativeDistancesOf_sorted: "sorted (cumulativeDistancesOf locations)"
proof (cases locations)
  case Nil
  then show ?thesis by (simp add: cumulativeDistancesOf_def)
next
  case (Cons l ls)
  then show ?thesis
    using cumulativeLoop_sorted [of 0 l ls] by (simp add: cumulativeDistancesOf_def)
qed

lemma cumulativeDistancesOf_first:
  "locations \<noteq> [] \<Longrightarrow> cumulativeDistancesOf locations ! 0 = 0"
  by (cases locations) (simp_all add: cumulativeDistancesOf_def)

lemma cumulativeDistancesOf_mono:
  "i \<le> j \<Longrightarrow> j < length locations \<Longrightarrow>
   cumulativeDistancesOf locations ! i \<le> cumulativeDistancesOf locations ! j"
  using cumulativeDistancesOf_sorted [of locations]
  by (simp add: sorted_iff_nth_mono)

lemma cumulativeDistancesOf_nonneg:
  "j < length locations \<Longrightarrow> 0 \<le> cumulativeDistancesOf locations ! j"
  using cumulativeDistancesOf_mono [of 0 j locations] cumulativeDistancesOf_first [of locations]
  by (cases locations) auto

subsection \<open>The detection loop\<close>

lemma detectLoop_unfold:
  "i < n \<Longrightarrow> detectLoop locations fx fy threshold n i lapStarts =
     detectLoop locations fx fy threshold n (i + 1) (lapStep locations fx fy threshold i lapStarts)"
  by (subst detectLoop.simps) (simp add: lapStep_def Let_def)

lemma detectLoop_done:
  "n \<le> i \<Longrightarrow> detectLoop locations fx fy threshold n i lapStarts = lapStarts"
  by (subst detectLoop.simps) simp

lemma detectLoop_split:
  "i \<le> k \<Longrightarrow> k \<le> n \<Longrightarrow>
   detectLoop locations fx fy threshold n i lapStarts =
     detectLoop locations fx fy threshold n k (detectLoop locations fx fy threshold k i lapStarts)"
proof (induction "k - i" arbitrary: i lapStarts)
  case 0
  then show ?case by (simp add: detectLoop_done)
next
  case (Suc d)
  then have lt: "i < k" "i < n" by simp_all
  have "d = k - (i + 1)" using Suc.hyps(2) by simp
  from Suc.hyps(1) [OF this, of "lapStep locations fx fy threshold i lapStarts"] Suc.prems lt
  show ?case by (simp add: detectLoop_unfold)
qed

lemma detectLoop_appends:
  "\<exists>ys. detectLoop locations fx fy threshold n i lapStarts = lapStarts @ ys \<and> set ys \<subseteq> {i..<n}"
proof (induction "n - i" arbitrary: i lapStarts)
  case 0
  then show ?case by (simp add: detectLoop_done)
next
  case (Suc d)
  then have lt: "i < n" by simp
  have "d = n - (i + 1)" using Suc.hyps(2) by simp
  from Suc.hyps(1) [OF this, of "lapStep locations fx fy threshold i lapStarts"]
  obtain ys where ys: "detectLoop locations fx fy threshold n (i + 1)
        (lapStep locations fx fy threshold i lapStarts)
      = lapStep locations fx fy threshold i lapStarts @ ys" "set ys \<subseteq> {i + 1..<n}"
    by blast
  show ?case
  proof (cases "lapStep locations fx fy threshold i lapStarts = lapStarts")
    case True
    then show ?thesis using ys lt by (auto simp: detectLoop_unfold)
  next
    case False
    then have "lapStep locations fx fy threshold i lapStarts = lapStarts @ [i]"
      by (simp add: lapStep_def split: if_splits)
    then show ?thesis using ys lt by (auto simp: detectLoop_unfold)
  qed
qed

lemma detectLoop_none:
  "\<forall>i. a \<le> i \<and> i < n \<longrightarrow>
      \<not> distance2D (Location.X (locations ! i)) (Location.Y (locations ! i)) fx fy < threshold \<Longrightarrow>
   detectLoop locations fx fy threshold n a lapStarts = lapStarts"
proof (induction "n - a" arbitrary: a)
  case 0
  then show ?case by (simp add: detectLoop_done)
next
  case (Suc d)
  then have lt: "a < n" by simp
  have d: "d = n - (a + 1)" using Suc.hyps(2) by simp
  have step: "lapStep locations fx fy threshold a lapStarts = lapStarts"
    using Suc.prems lt by (simp add: lapStep_def)
  have "detectLoop locations fx fy threshold n (a + 1) lapStarts = lapStarts"
    using Suc.prems by (intro Suc.hyps(1) [OF d]) simp
  then show ?case using lt by (simp add: detectLoop_unfold step)
qed

lemma recorded_iff:
  assumes "minPointsForLap \<le> i" "i < n"
  shows "i \<in> set (tl (detectLoop locations fx fy threshold n minPointsForLap [0])) \<longleftrightarrow>
     distance2D (Location.X (locations ! i)) (Location.Y (locations ! i)) fx fy < threshold \<and>
     int minPointsForLap < int i - int (last (detectLoop locations fx fy threshold i minPointsForLap [0]))"
proof -
  let ?before = "detectLoop locations fx fy threshold i minPointsForLap [0]"
  obtain ys where ys: "?before = [0] @ ys" "set ys \<subseteq> {minPointsForLap..<i}"
    using detectLoop_appends [of locations fx fy threshold i minPointsForLap "[0]"] by blast
  obtain zs where zs: "detectLoop locations fx fy threshold n (i + 1)
        (lapStep locations fx fy threshold i ?before)
      = lapStep locations fx fy threshold i ?before @ zs" "set zs \<subseteq> {i + 1..<n}"
    using detectLoop_appends by blast
  have whole: "detectLoop locations fx fy threshold n minPointsForLap [0] =
      lapStep locations fx fy threshold i ?before @ zs"
    using detectLoop_split [of minPointsForLap i n locations fx fy threshold "[0]"] assms zs(1)
    by (simp add: detectLoop_unfold)
  have notin: "i \<notin> set ys" "i \<notin> set zs" using ys(2) zs(2) by auto
  show ?thesis
  proof (cases "lapStep locations fx fy threshold i ?before = ?before")
    case True
    then have cond: "\<not> (distance2D (Location.X (locations ! i)) (Location.Y (locations ! i)) fx fy < threshold \<and>
     int minPointsForLap < int i - int (last ?before))"
      by (auto simp: lapStep_def split: if_splits)
    have "tl (detectLoop locations fx fy threshold n minPointsForLap [0]) = ys @ zs"
      using whole True ys(1) by simp
    then show ?thesis using cond notin by simp
  next
    case False
    then have cond: "distance2D (Location.X (locations ! i)) (Location.Y (locations ! i)) fx fy < threshold \<and>
     int minPointsForLap < int i - int (last ?before)"
      and eq: "lapStep locations fx fy threshold i ?before = ?before @ [i]"
      by (auto simp: lapStep_def split: if_splits)
    have "tl (detectLoop locations fx fy threshold n minPointsForLap [0]) = ys @ [i] @ zs"
      using whole eq ys(1) by simp
    then show ?thesis using cond by simp
  qed
qed

lemma recorded_range:
  "i \<in> set (tl (detectLoop locations fx fy threshold n minPointsForLap [0])) \<Longrightarrow>
   minPointsForLap \<le> i \<and> i < n"
  using detectLoop_appends [of locations fx fy threshold n minPointsForLap "[0]"] by auto

lemma lapStep_sorted:
  "sorted_wrt (<) lapStarts \<Longrightarrow> \<forall>x \<in> set lapStarts. x < i \<Longrightarrow>
   sorted_wrt (<) (lapStep locations fx fy threshold i lapStarts) \<and>
   (\<forall>x \<in> set (lapStep locations fx fy threshold i lapStarts). x < i + 1)"
  by (auto simp: lapStep_def sorted_wrt_append)

lemma detectLoop_sorted:
  "sorted_wrt (<) lapStarts \<Longrightarrow> \<forall>x \<in> set lapStarts. x < i \<Longrightarrow>
   sorted_wrt (<) (detectLoop locations fx fy threshold n i lapStarts)"
proof (induction "n - i" arbitrary: i lapStarts)
  case 0
  then show ?case by (simp add: detectLoop_done)
next
  case (Suc d)
  then have lt: "i < n" by simp
  have d: "d = n - (i + 1)" using Suc.hyps(2) by simp
  from lapStep_sorted [OF Suc.prems, of locations fx fy threshold]
  have "sorted_wrt (<) (detectLoop locations fx fy threshold n (i + 1)
          (lapStep locations fx fy threshold i lapStarts))"
    by (intro Suc.hyps(1) [OF d]) simp_all
  then show ?case using lt by (simp add: detectLoop_unfold)
qed

lemma detectLapStarts_shape:
  "\<exists>ys. detectLapStarts locations = 0 # ys \<and> set ys \<subseteq> {minPointsForLap..<length locations}"
  using detectLoop_appends [of locations _ _ _ "length locations" minPointsForLap "[0]"]
  by (simp add: detectLapStarts_def lapStartsBefore_def)

lemma detectLapStarts_sorted: "sorted_wrt (<) (detectLapStarts locations)"
  unfolding detectLapStarts_def lapStartsBefore_def
  by (rule detectLoop_sorted) (simp_all add: minPointsForLap_def)

text \<open>The three sample streams with a return to the start.\<close>

lemma outAndBack_total: "last (cumulativeDistancesOf outAndBack) = 20"
  by (simp add: outAndBack_def cumulativeDistancesOf_def sampleAt_def distance2D_def
      float64OfInt_def numeral_eq_Suc Let_def)

lemma rnd_two_fifths: "rnd (2 / 5) = 7205759403792794 / 2 ^ 54"
  using rnd_eval_near [of "- 2" "2 / 5" 7205759403792794] by (simp add: power_int_minus)

lemma rnd_two_fifths_times_5: "rnd (rnd (2 / 5) * 5) = 2"
  unfolding rnd_two_fifths
  using rnd_eval_near [of 1 "7205759403792794 / 2 ^ 54 * 5" 4503599627370496]
  by (simp add: power_int_minus)

lemma outAndBack_threshold: "lapThreshold outAndBack = 2"
  by (simp add: lapThreshold_def outAndBack_total Let_def rnd_two_fifths_times_5)
    (simp add: outAndBack_def rnd_two_fifths_times_5)

lemma outAndBack_detect: "detectLapStarts outAndBack = [0]"
  apply (simp add: detectLapStarts_def lapStartsBefore_def minPointsForLap_def outAndBack_threshold)
  apply (subst detectLoop.simps)
  apply (simp add: outAndBack_def nth_append nth_Cons sampleAt_def distance2D_def float64OfInt_def minPointsForLap_def)
  apply (subst detectLoop.simps)
  apply simp
  done

lemma secondLap_total: "last (cumulativeDistancesOf secondLap) = 20"
  by (simp add: secondLap_def cumulativeDistancesOf_def sampleAt_def distance2D_def
      float64OfInt_def numeral_eq_Suc Let_def)

lemma rnd_20_51: "rnd (20 / 51) = 7064470003718425 / 2 ^ 54"
  using rnd_eval_near [of "- 2" "20 / 51" 7064470003718425] by (simp add: power_int_minus)

lemma rnd_20_51_times_5: "rnd (rnd (20 / 51) * 5) = 8830587504648031 / 2 ^ 52"
  unfolding rnd_20_51
  using rnd_eval_near [of 0 "7064470003718425 / 2 ^ 54 * 5" 8830587504648031]
  by (simp add: power_int_minus)

lemma secondLap_threshold: "lapThreshold secondLap = 8830587504648031 / 2 ^ 52"
  by (simp add: lapThreshold_def secondLap_total Let_def rnd_20_51_times_5)
    (simp add: secondLap_def rnd_20_51_times_5)

lemma secondLap_before: "lapStartsBefore secondLap 51 = [0]"
  apply (simp add: lapStartsBefore_def minPointsForLap_def secondLap_threshold)
  apply (subst detectLoop.simps)
  apply (simp add: secondLap_def nth_append nth_Cons sampleAt_def distance2D_def float64OfInt_def minPointsForLap_def)
  apply (subst detectLoop.simps)
  apply simp
  done

lemma secondLap_laps: "detectLapStarts secondLap = [0, 51]"
proof -
  have len: "length secondLap = 52" by (simp add: secondLap_def)
  have d51: "distToFirst secondLap 51 = 0"
    by (simp add: distToFirst_def secondLap_def nth_append nth_Cons sampleAt_def distance2D_def float64OfInt_def)
  have "detectLapStarts secondLap =
      detectLoop secondLap (Location.X (secondLap ! 0)) (Location.Y (secondLap ! 0))
        (lapThreshold secondLap) 52 51 (lapStartsBefore secondLap 51)"
    unfolding detectLapStarts_def lapStartsBefore_def len
    by (rule detectLoop_split) (simp_all add: minPointsForLap_def)
  also have "\<dots> = [0, 51]"
    using d51
    by (simp add: secondLap_before detectLoop_unfold detectLoop_done lapStep_def distToFirst_def
        secondLap_threshold minPointsForLap_def)
  finally show ?thesis .
qed

lemma secondLap_cum:
  "cumulativeDistancesOf secondLap ! 0 = 0"
  "cumulativeDistancesOf secondLap ! 30 = 10"
  "cumulativeDistancesOf secondLap ! 50 = 10"
  by (simp_all add: secondLap_def cumulativeDistancesOf_def sampleAt_def distance2D_def
      float64OfInt_def numeral_eq_Suc Let_def)

text \<open>
  In \<open>tenLap\<close> the decision at sample 51 depends on the rounding. The distance back to
  sample 0 and the threshold are both \<open>5 * sqrt 10\<close>; as computed, the distance is one unit
  in the last place below the threshold, and the boundary is recorded.
\<close>

lemma rnd_sqrt_7840: "rnd (sqrt 7840) = 6230714215239656 / 2 ^ 46"
  using rnd_sqrt_eval [of 6 6230714215239656 7840]
  by (simp add: power_int_minus power2_eq_square)

lemma rnd_sqrt_5290: "rnd (sqrt 5290) = 5118086676804003 / 2 ^ 46"
  using rnd_sqrt_eval [of 6 5118086676804003 5290]
  by (simp add: power_int_minus power2_eq_square)

lemma rnd_sqrt_250: "rnd (sqrt 250) = 8901020307485223 / 2 ^ 49"
  using rnd_sqrt_eval [of 3 8901020307485223 250]
  by (simp add: power_int_minus power2_eq_square)

lemma tenLap_sum: "rnd (rnd (sqrt 7840) + rnd (sqrt 5290)) = 5674400446021830 / 2 ^ 45"
  unfolding rnd_sqrt_7840 rnd_sqrt_5290
  using rnd_eval_tie [of 7 "6230714215239656 / 2 ^ 46 + 5118086676804003 / 2 ^ 46" 5674400446021830]
  by (simp add: power_int_minus)

lemma tenLap_avg: "rnd (rnd (rnd (sqrt 7840) + rnd (sqrt 5290)) / 51) = 7120816245988179 / 2 ^ 51"
  unfolding tenLap_sum
  using rnd_eval_near [of 1 "5674400446021830 / 2 ^ 45 / 51" 7120816245988179]
  by (simp add: power_int_minus)

lemma tenLap_five_avg:
  "rnd (rnd (rnd (rnd (sqrt 7840) + rnd (sqrt 5290)) / 51) * 5) = 8901020307485224 / 2 ^ 49"
  unfolding tenLap_avg
  using rnd_eval_near [of 3 "7120816245988179 / 2 ^ 51 * 5" 8901020307485224]
  by (simp add: power_int_minus)

lemma tenLap_total: "last (cumulativeDistancesOf tenLap) = rnd (rnd (sqrt 7840) + rnd (sqrt 5290))"
  by (simp add: tenLap_def cumulativeDistancesOf_def sampleAt_def distance2D_def
      float64OfInt_def numeral_eq_Suc Let_def)

lemma tenLap_threshold: "lapThreshold tenLap = 8901020307485224 / 2 ^ 49"
  by (simp add: lapThreshold_def tenLap_total Let_def) (simp add: tenLap_def tenLap_five_avg)

lemma tenLap_before: "lapStartsBefore tenLap 51 = [0]"
  apply (simp add: lapStartsBefore_def minPointsForLap_def tenLap_threshold)
  apply (subst detectLoop.simps)
  apply (simp add: tenLap_def nth_append nth_Cons sampleAt_def distance2D_def float64OfInt_def
      minPointsForLap_def)
  apply (subst detectLoop.simps)
  apply simp
  done

lemma tenLap_laps: "detectLapStarts tenLap = [0, 51]"
proof -
  have len: "length tenLap = 52" by (simp add: tenLap_def)
  have d51: "distToFirst tenLap 51 = 8901020307485223 / 2 ^ 49"
    by (simp add: distToFirst_def tenLap_def nth_append nth_Cons sampleAt_def distance2D_def
        float64OfInt_def rnd_sqrt_250)
  have "detectLapStarts tenLap =
      detectLoop tenLap (Location.X (tenLap ! 0)) (Location.Y (tenLap ! 0))
        (lapThreshold tenLap) 52 51 (lapStartsBefore tenLap 51)"
    unfolding detectLapStarts_def lapStartsBefore_def len
    by (rule detectLoop_split) (simp_all add: minPointsForLap_def)
  also have "\<dots> = [0, 51]"
    using d51
    by (simp add: tenLap_before detectLoop_unfold detectLoop_done lapStep_def distToFirst_def
        tenLap_threshold minPointsForLap_def)
  finally show ?thesis .
qed

text \<open>
  Claim C6, as stated, fails. In \<open>outAndBack\<close> sample 50 is back at the coordinates of
  sample 0, below the threshold 2, and 50 samples have elapsed since the lap start 0; the
  code requires \<open>i - lastLapStart > 50\<close> and records no boundary at sample 50.
\<close>

theorem lap_boundary_at_50_counterexample:
  "outAndBack \<noteq> [] \<and> (50 :: nat) \<le> 50 \<and> 50 < length outAndBack \<and>
   distToFirst outAndBack 50 < lapThreshold outAndBack \<and>
   50 \<le> int 50 - int (last (lapStartsBefore outAndBack 50)) \<and>
   50 \<notin> set (tl (detectLapStarts outAndBack))"
proof -
  have d50: "distToFirst outAndBack 50 = 0"
    by (simp add: distToFirst_def outAndBack_def nth_append nth_Cons sampleAt_def distance2D_def float64OfInt_def)
  have before: "lapStartsBefore outAndBack 50 = [0]"
    by (simp add: lapStartsBefore_def detectLoop_done minPointsForLap_def)
  show ?thesis
    by (simp add: d50 before outAndBack_threshold outAndBack_detect) (simp add: outAndBack_def)
qed

text \<open>
  Claim C6, amended. For every non-empty input, a new lap boundary is recorded at sample
  \<open>i\<close> exactly when \<open>i\<close> is at least 50 (and a sample of the input), the planar distance
  from sample \<open>i\<close> back to the coordinates of sample 0 is below 5 times the mean segment
  length of the whole stream, both as the code computes them in \<open>float64\<close>, and more than 50
  samples have elapsed since the previously detected lap start.
\<close>

theorem lap_boundary_recorded_iff:
  assumes "locations \<noteq> []"
  shows "i \<in> set (tl (detectLapStarts locations)) \<longleftrightarrow>
     minPointsForLap \<le> i \<and> i < length locations \<and>
     distToFirst locations i < lapThreshold locations \<and>
     int minPointsForLap < int i - int (last (lapStartsBefore locations i))"
proof (cases "minPointsForLap \<le> i \<and> i < length locations")
  case True
  then show ?thesis
    using recorded_iff [of i "length locations" locations]
    by (simp add: detectLapStarts_def lapStartsBefore_def distToFirst_def)
next
  case False
  then show ?thesis
    using recorded_range [of i locations _ _ _ "length locations"]
    by (auto simp: detectLapStarts_def lapStartsBefore_def)
qed

theorem lap_boundary_recorded_iff_witness:
  "secondLap \<noteq> [] \<and> 51 \<in> set (tl (detectLapStarts secondLap)) \<and>
   50 \<notin> set (tl (detectLapStarts secondLap))"
proof -
  have ne: "secondLap \<noteq> []" by (simp add: secondLap_def)
  have d51: "distToFirst secondLap 51 = 0"
    by (simp add: distToFirst_def secondLap_def nth_append nth_Cons sampleAt_def distance2D_def float64OfInt_def)
  have d50: "distToFirst secondLap 50 = 10"
    by (simp add: distToFirst_def secondLap_def nth_append nth_Cons sampleAt_def distance2D_def float64OfInt_def)
  have len: "length secondLap = 52" by (simp add: secondLap_def)
  show ?thesis
    using lap_boundary_recorded_iff [OF ne, of 51] lap_boundary_recorded_iff [OF ne, of 50] ne
    by (simp add: d51 d50 len secondLap_threshold secondLap_before minPointsForLap_def)
qed

subsection \<open>The index within the lap\<close>

lemma findLapIndex_found:
  "m \<le> length L \<Longrightarrow> \<exists>j < m. L ! j \<le> i \<Longrightarrow>
   findLapIndex L i m < m \<and> L ! findLapIndex L i m \<le> i \<and>
   (\<forall>j. findLapIndex L i m < j \<and> j < m \<longrightarrow> i < L ! j)"
proof (induction m)
  case 0
  then show ?case by simp
next
  case (Suc m)
  show ?case
  proof (cases "L ! m \<le> i")
    case True
    then show ?thesis by simp
  next
    case False
    with Suc.prems have "\<exists>j < m. L ! j \<le> i"
      by (metis less_Suc_eq)
    with Suc.IH Suc.prems(1) have ih: "findLapIndex L i m < m" "L ! findLapIndex L i m \<le> i"
      "\<forall>j. findLapIndex L i m < j \<and> j < m \<longrightarrow> i < L ! j"
      by simp_all
    show ?thesis using False ih by (auto simp: less_Suc_eq)
  qed
qed

lemma lap_lookup:
  fixes locations :: "Location list" and i :: nat
  defines "L \<equiv> detectLapStarts locations"
  defines "k \<equiv> findLapIndex L i (length L)"
  shows "k < length L" and "L ! k \<le> i" and "\<forall>j. k < j \<and> j < length L \<longrightarrow> i < L ! j"
    and "lapStartOf L i = L ! k"
    and "lapEndOf L n i = (if k + 1 < length L then L ! (k + 1) - 1 else n - 1)"
proof -
  obtain ys where shape: "L = 0 # ys"
    using detectLapStarts_shape [of locations] by (auto simp: L_def)
  have sorted: "sorted_wrt (<) L" by (simp add: L_def detectLapStarts_sorted)
  have mono: "L ! a \<le> L ! b" if "a \<le> b" "b < length L" for a b
  proof (cases "a = b")
    case True
    then show ?thesis by simp
  next
    case False
    then have "a < b" using that(1) by simp
    then have "L ! a < L ! b" using sorted_wrt_nth_less [OF sorted] that(2) by simp
    then show ?thesis by simp
  qed
  have "\<exists>j < length L. L ! j \<le> i" using shape by auto
  from findLapIndex_found [OF le_refl this]
  show k1: "k < length L" and k2: "L ! k \<le> i"
    and k3: "\<forall>j. k < j \<and> j < length L \<longrightarrow> i < L ! j"
    by (simp_all add: k_def)
  have below: "j \<le> k" if "j < length L" "L ! j \<le> i" for j
    using k3 that by (metis not_le_imp_less not_less)
  show "lapStartOf L i = L ! k"
    unfolding lapStartOf_def
  proof (rule Max_eqI)
    show "finite (set (filter (\<lambda>b. b \<le> i) L))" by simp
    show "L ! k \<in> set (filter (\<lambda>b. b \<le> i) L)" using k1 k2 by simp
    fix y assume "y \<in> set (filter (\<lambda>b. b \<le> i) L)"
    then obtain j where "j < length L" "y = L ! j" "L ! j \<le> i"
      by (auto simp: in_set_conv_nth)
    then show "y \<le> L ! k" using below mono k1 by simp
  qed
  show "lapEndOf L n i = (if k + 1 < length L then L ! (k + 1) - 1 else n - 1)"
  proof (cases "k + 1 < length L")
    case True
    have next_gt: "i < L ! (k + 1)" using k3 True by simp
    have "Min (set (filter (\<lambda>b. i < b) L)) = L ! (k + 1)"
    proof (rule Min_eqI)
      show "finite (set (filter (\<lambda>b. i < b) L))" by simp
      show "L ! (k + 1) \<in> set (filter (\<lambda>b. i < b) L)" using True next_gt by simp
      fix y assume "y \<in> set (filter (\<lambda>b. i < b) L)"
      then obtain j where j: "j < length L" "y = L ! j" "i < L ! j"
        by (auto simp: in_set_conv_nth)
      have "\<not> j \<le> k" using mono [of j k] k1 k2 j(3) by auto
      then show "L ! (k + 1) \<le> y" using mono [of "k + 1" j] j by simp
    qed
    moreover have "\<exists>b \<in> set L. i < b" using True next_gt nth_mem by blast
    ultimately show ?thesis using True by (simp add: lapEndOf_def)
  next
    case False
    have "\<not> (\<exists>b \<in> set L. i < b)"
    proof
      assume "\<exists>b \<in> set L. i < b"
      then obtain j where j: "j < length L" "i < L ! j" by (auto simp: in_set_conv_nth)
      then have "j \<le> k" using False k1 by simp
      then show False using mono [of j k] k1 k2 j by simp
    qed
    then show ?thesis using False by (simp add: lapEndOf_def)
  qed
qed

lemma clamp_min: "(if 144 \<le> x then 143 else x) = min 143 (x :: int)"
  by (simp add: min_def)

lemma indexInLap_roundedIndex:
  "indexInLap cum (detectLapStarts locations) n i = roundedIndex cum (detectLapStarts locations) n i"
  by (simp only: indexInLap_def roundedIndex_def Let_def lap_lookup(4,5) clamp_min)

text \<open>
  The three samples of \<open>bend\<close>: segments of length \<open>sqrt 925\<close> and \<open>sqrt 333\<close>. The sum of the
  two rounded lengths lies halfway between two \<open>float64\<close> values and rounds up to the even
  one; the quotient of the first length by this sum then rounds to \<open>5/8\<close>, and \<open>5/8 * 144\<close>
  is 90, while the exact quotient lies below \<open>5/8\<close>.
\<close>

lemma rnd_sqrt_925: "rnd (sqrt 925) = 8560727207760712 / 2 ^ 48"
  using rnd_sqrt_eval [of 4 8560727207760712 925]
  by (simp add: power_int_minus power2_eq_square)

lemma rnd_sqrt_333: "rnd (sqrt 333) = 5136436324656427 / 2 ^ 48"
  using rnd_sqrt_eval [of 4 5136436324656427 333]
  by (simp add: power_int_minus power2_eq_square)

lemma bend_total: "rnd (rnd (sqrt 925) + rnd (sqrt 333)) = 6848581766208570 / 2 ^ 47"
  unfolding rnd_sqrt_925 rnd_sqrt_333
  using rnd_eval_tie [of 5 "8560727207760712 / 2 ^ 48 + 5136436324656427 / 2 ^ 48" 6848581766208570]
  by (simp add: power_int_minus)

lemma bend_normalized: "rnd (rnd (sqrt 925) / rnd (rnd (sqrt 925) + rnd (sqrt 333))) = 5 / 8"
  unfolding bend_total unfolding rnd_sqrt_925
  using rnd_eval_near [of "- 1" "(8560727207760712 / 2 ^ 48) / (6848581766208570 / 2 ^ 47)"
      5629499534213120]
  by (simp add: power_int_minus)

lemma bend_cum:
  "cumulativeDistancesOf bend = [0, rnd (sqrt 925), rnd (rnd (sqrt 925) + rnd (sqrt 333))]"
  by (simp add: bend_def cumulativeDistancesOf_def sampleAt_def distance2D_def float64OfInt_def
      Let_def)

lemma bend_cum_values:
  "cumulativeDistancesOf bend = [0, 8560727207760712 / 2 ^ 48, 6848581766208570 / 2 ^ 47]"
  unfolding bend_cum unfolding bend_total unfolding rnd_sqrt_925 by (rule refl)

lemma bend_laps: "detectLapStarts bend = [0]"
  by (simp add: detectLapStarts_def lapStartsBefore_def detectLoop_done minPointsForLap_def bend_def)

lemma bend_total_pos: "rnd (rnd (sqrt 925) + rnd (sqrt 333)) \<noteq> 0"
  by (simp add: bend_total)

text \<open>
  Claim C7, as stated, fails. For sample 1 of \<open>bend\<close> the code returns the index 90; the
  formula of the claim, evaluated on the cumulative distances the code has computed, gives
  89. The code does not take the floor of \<open>144 * (d - s) / (e - s)\<close>: it rounds the quotient
  \<open>(d - s) / (e - s)\<close> to a \<open>float64\<close> first, multiplies by 144 and rounds again.
\<close>

theorem index_formula_counterexample:
  "bend \<noteq> [] \<and> 1 < length bend \<and>
   mapLocationsToIndices bend ! 1 = 90 \<and>
   specIndex (cumulativeDistancesOf bend) (detectLapStarts bend) (length bend) 1 = 89"
proof -
  have len: "length bend = 3" by (simp add: bend_def)
  have "mapLocationsToIndices bend ! 1 =
      roundedIndex (cumulativeDistancesOf bend) (detectLapStarts bend) 3 1"
    by (simp add: mapLocationsToIndices_def Let_def len indexInLap_roundedIndex)
  also have "\<dots> = 90"
    using bend_total_pos
    by (simp add: roundedIndex_def bend_laps bend_cum lapStartOf_def lapEndOf_def Let_def
        bend_normalized)
  finally have code: "mapLocationsToIndices bend ! 1 = 90" .
  have "specIndex (cumulativeDistancesOf bend) (detectLapStarts bend) (length bend) 1 =
      \<lfloor>144 * (8560727207760712 / 2 ^ 48) / (6848581766208570 / 2 ^ 47) :: real\<rfloor>"
    by (simp add: specIndex_def bend_laps bend_cum_values lapStartOf_def lapEndOf_def Let_def len)
  also have "\<dots> = 89" by (rule floor_unique) simp_all
  finally show ?thesis using code len by (simp add: bend_def)
qed

text \<open>
  Claim C7, amended. Every sample is assigned to the most recent lap boundary at or before it.
  With \<open>d\<close>, \<open>s\<close> and \<open>e\<close> the cumulative distances of the sample, of the lap start and of the
  lap end, its index is the floor of \<open>((d - s) / (e - s)) * 144\<close> computed in \<open>float64\<close> in
  this order, each of the two differences, the quotient and the product rounded to the
  nearest \<open>float64\<close>, clamped to 143; in a lap with \<open>e = s\<close> every sample has index 0.
\<close>

theorem mapLocationsToIndices_formula:
  assumes "locations \<noteq> []" and "i < length locations"
  shows "mapLocationsToIndices locations ! i =
     roundedIndex (cumulativeDistancesOf locations) (detectLapStarts locations) (length locations) i"
  using assms by (simp add: mapLocationsToIndices_def Let_def indexInLap_roundedIndex)

theorem mapLocationsToIndices_formula_witness:
  "secondLap \<noteq> [] \<and> 30 < length secondLap \<and> 51 < length secondLap \<and>
   mapLocationsToIndices secondLap ! 30 = 143 \<and>
   mapLocationsToIndices secondLap ! 51 = 0"
proof -
  have ne: "secondLap \<noteq> []" and len: "length secondLap = 52" by (simp_all add: secondLap_def)
  have i30: "30 < length secondLap" and i51: "51 < length secondLap" by (simp_all add: len)
  have "mapLocationsToIndices secondLap ! 30 = 143"
    using mapLocationsToIndices_formula [OF ne i30]
    by (simp add: secondLap_laps roundedIndex_def lapStartOf_def lapEndOf_def len secondLap_cum Let_def)
  moreover have "mapLocationsToIndices secondLap ! 51 = 0"
    using mapLocationsToIndices_formula [OF ne i51]
    by (simp add: secondLap_laps roundedIndex_def lapStartOf_def lapEndOf_def len Let_def)
  ultimately show ?thesis using ne i30 i51 by simp
qed

lemma indexInLap_first:
  assumes "locations \<noteq> []"
  shows "indexInLap (cumulativeDistancesOf locations) (detectLapStarts locations) n 0 = 0"
proof -
  let ?L = "detectLapStarts locations"
  let ?k = "findLapIndex ?L 0 (length ?L)"
  obtain ys where shape: "?L = 0 # ys"
    using detectLapStarts_shape [of locations] by auto
  have "?L ! ?k \<le> 0" "?k < length ?L" using lap_lookup(1,2) [of locations 0] by simp_all
  then have "?L ! ?k = 0" by simp
  then have "indexInLap (cumulativeDistancesOf locations) ?L n 0 =
    (if cumulativeDistancesOf locations ! (if ?k + 1 < length ?L then ?L ! (?k + 1) - 1 else n - 1) = 0 then 0
     else 0)"
    using assms by (simp add: indexInLap_def Let_def cumulativeDistancesOf_first)
  then show ?thesis by simp
qed

text \<open>
  Claim C10. \<open>mapLocationsToIndices\<close> returns as many indices as it is given samples; for
  the empty input it returns the empty list, and for a non-empty input the first index is 0.
\<close>

theorem mapLocationsToIndices_length_first:
  "length (mapLocationsToIndices locations) = length locations \<and>
   (locations = [] \<longrightarrow> mapLocationsToIndices locations = []) \<and>
   (locations \<noteq> [] \<longrightarrow> mapLocationsToIndices locations ! 0 = 0)"
proof (intro conjI impI)
  show "length (mapLocationsToIndices locations) = length locations"
    by (simp add: mapLocationsToIndices_def Let_def)
  show "mapLocationsToIndices locations = []" if "locations = []"
    using that by (simp add: mapLocationsToIndices_def)
  show "mapLocationsToIndices locations ! 0 = 0" if "locations \<noteq> []"
  proof -
    have "mapLocationsToIndices locations ! 0 =
        indexInLap (cumulativeDistancesOf locations) (detectLapStarts locations) (length locations) 0"
      using that by (simp add: mapLocationsToIndices_def Let_def)
    then show ?thesis using that by (simp add: indexInLap_first)
  qed
qed

theorem mapLocationsToIndices_length_first_witness:
  "mapLocationsToIndices [] = [] \<and> threePoints \<noteq> [] \<and>
   length (mapLocationsToIndices threePoints) = 3 \<and>
   mapLocationsToIndices threePoints ! 0 = 0"
  using mapLocationsToIndices_length_first [of "[]"] mapLocationsToIndices_length_first [of threePoints]
  by (simp add: threePoints_def)

subsection \<open>A single lap along a straight line\<close>

lemma clamp_mono:
  "x \<le> y \<Longrightarrow> (if 144 \<le> x then 143 else x) \<le> (if 144 \<le> y then 143 else (y :: int))"
  by auto

lemma clamp_bounds:
  "0 \<le> x \<Longrightarrow> 0 \<le> (if 144 \<le> x then 143 else x) \<and> (if 144 \<le> x then 143 else x) \<le> (143 :: int)"
  by auto

lemma indexInLap_single:
  "indexInLap cum [0] n i =
     (if cum ! (n - 1) = cum ! 0 then 0
      else (if 144 \<le> \<lfloor>rnd (rnd (rnd (cum ! i - cum ! 0) / rnd (cum ! (n - 1) - cum ! 0)) * 144)\<rfloor>
            then 143
            else \<lfloor>rnd (rnd (rnd (cum ! i - cum ! 0) / rnd (cum ! (n - 1) - cum ! 0)) * 144)\<rfloor>))"
proof -
  have k: "findLapIndex [0] i (length [0 :: nat]) = 0" by simp
  have e: "(if 0 + 1 < length [0 :: nat] then [0] ! (0 + 1) - 1 else n - 1) = n - 1" by simp
  have z: "[0 :: nat] ! 0 = 0" by simp
  show ?thesis unfolding indexInLap_def Let_def k e z ..
qed

lemma single_lap_index_bounds:
  assumes "locations \<noteq> []" "i < length locations"
  shows "0 \<le> indexInLap (cumulativeDistancesOf locations) [0] (length locations) i \<and>
         indexInLap (cumulativeDistancesOf locations) [0] (length locations) i \<le> 143"
proof -
  let ?cum = "cumulativeDistancesOf locations"
  let ?T = "?cum ! (length locations - 1)"
  have c0: "?cum ! 0 = 0" using assms(1) by (rule cumulativeDistancesOf_first)
  have T: "0 \<le> ?T - 0" using assms(1) cumulativeDistancesOf_nonneg [of "length locations - 1" locations]
    by simp
  have ci: "0 \<le> ?cum ! i - 0" using assms(2) cumulativeDistancesOf_nonneg [of i locations] by simp
  have "0 \<le> rnd (?cum ! i - 0) / rnd (?T - 0)"
    using rnd_nonneg [OF T] rnd_nonneg [OF ci] by (rule divide_nonneg_nonneg [rotated])
  then have "0 \<le> rnd (rnd (?cum ! i - 0) / rnd (?T - 0))" by (rule rnd_nonneg)
  then have "0 \<le> rnd (rnd (?cum ! i - 0) / rnd (?T - 0)) * 144" by simp
  then have "0 \<le> rnd (rnd (rnd (?cum ! i - 0) / rnd (?T - 0)) * 144)" by (rule rnd_nonneg)
  then have "0 \<le> \<lfloor>rnd (rnd (rnd (?cum ! i - 0) / rnd (?T - 0)) * 144)\<rfloor>"
    by (simp only: zero_le_floor)
  from clamp_bounds [OF this] show ?thesis
    unfolding indexInLap_single c0 by (cases "?T = 0") simp_all
qed

lemma single_lap_index_mono:
  assumes "i \<le> j" "j < length locations"
  shows "indexInLap (cumulativeDistancesOf locations) [0] (length locations) i
       \<le> indexInLap (cumulativeDistancesOf locations) [0] (length locations) j"
proof -
  let ?cum = "cumulativeDistancesOf locations"
  let ?T = "?cum ! (length locations - 1)"
  have ne: "locations \<noteq> []" using assms(2) by auto
  have c0: "?cum ! 0 = 0" using ne by (rule cumulativeDistancesOf_first)
  have T: "0 \<le> ?T - 0" using ne cumulativeDistancesOf_nonneg [of "length locations - 1" locations]
    by simp
  have "?cum ! i - 0 \<le> ?cum ! j - 0"
    using cumulativeDistancesOf_mono [OF assms] by simp
  then have "rnd (?cum ! i - 0) \<le> rnd (?cum ! j - 0)" by (rule rnd_mono)
  then have "rnd (?cum ! i - 0) / rnd (?T - 0) \<le> rnd (?cum ! j - 0) / rnd (?T - 0)"
    using rnd_nonneg [OF T] by (rule divide_right_mono)
  then have "rnd (rnd (?cum ! i - 0) / rnd (?T - 0)) \<le> rnd (rnd (?cum ! j - 0) / rnd (?T - 0))"
    by (rule rnd_mono)
  then have "rnd (rnd (?cum ! i - 0) / rnd (?T - 0)) * 144
      \<le> rnd (rnd (?cum ! j - 0) / rnd (?T - 0)) * 144"
    by (rule mult_right_mono) simp
  then have "rnd (rnd (rnd (?cum ! i - 0) / rnd (?T - 0)) * 144)
      \<le> rnd (rnd (rnd (?cum ! j - 0) / rnd (?T - 0)) * 144)"
    by (rule rnd_mono)
  then have "\<lfloor>rnd (rnd (rnd (?cum ! i - 0) / rnd (?T - 0)) * 144)\<rfloor>
      \<le> \<lfloor>rnd (rnd (rnd (?cum ! j - 0) / rnd (?T - 0)) * 144)\<rfloor>"
    by (rule floor_mono)
  from clamp_mono [OF this] show ?thesis
    unfolding indexInLap_single c0 by (cases "?T = 0") simp_all
qed

text \<open>
  Claim C8. For samples evenly spaced along a straight line that form a single lap (no lap
  boundary is detected after the first sample), the indices returned are non-decreasing,
  start at 0 and lie between 0 and 143.
\<close>

theorem straight_line_indices_monotone:
  assumes line: "evenlySpacedLine locations x0 y0 dx dy"
    and single: "detectLapStarts locations = [0]"
  shows "sorted (mapLocationsToIndices locations) \<and>
         (\<forall>v \<in> set (mapLocationsToIndices locations). 0 \<le> v \<and> v \<le> 143) \<and>
         (locations \<noteq> [] \<longrightarrow> hd (mapLocationsToIndices locations) = 0)"
proof (cases "locations = []")
  case True
  then show ?thesis by (simp add: mapLocationsToIndices_def)
next
  case False
  let ?f = "indexInLap (cumulativeDistancesOf locations) [0] (length locations)"
  have res: "mapLocationsToIndices locations = map ?f [0..<length locations]"
    using False single by (simp add: mapLocationsToIndices_def Let_def)
  have "sorted (map ?f [0..<length locations])"
    by (simp add: sorted_iff_nth_mono single_lap_index_mono)
  moreover have "\<forall>v \<in> set (map ?f [0..<length locations]). 0 \<le> v \<and> v \<le> 143"
    using single_lap_index_bounds [OF False] by simp
  moreover have "hd (map ?f [0..<length locations]) = 0"
    using False indexInLap_first [OF False, of "length locations"] single
    by (simp add: hd_map upt_conv_Cons)
  ultimately show ?thesis by (simp add: res)
qed

text \<open>
  The 60 samples of \<open>straightRun\<close> do form a single lap: every segment has the length 5,
  computed without rounding, the threshold is 25, and the samples from 50 on are at least
  250 away from sample 0.
\<close>

lemma straightRun_samples:
  "straightRun =
    [sampleAt 0 0, sampleAt 3 4, sampleAt 6 8, sampleAt 9 12, sampleAt 12 16, sampleAt 15 20,
     sampleAt 18 24, sampleAt 21 28, sampleAt 24 32, sampleAt 27 36, sampleAt 30 40, sampleAt
     33 44, sampleAt 36 48, sampleAt 39 52, sampleAt 42 56, sampleAt 45 60, sampleAt 48 64,
     sampleAt 51 68, sampleAt 54 72, sampleAt 57 76, sampleAt 60 80, sampleAt 63 84, sampleAt
     66 88, sampleAt 69 92, sampleAt 72 96, sampleAt 75 100, sampleAt 78 104, sampleAt 81 108,
     sampleAt 84 112, sampleAt 87 116, sampleAt 90 120, sampleAt 93 124, sampleAt 96 128,
     sampleAt 99 132, sampleAt 102 136, sampleAt 105 140, sampleAt 108 144, sampleAt 111 148,
     sampleAt 114 152, sampleAt 117 156, sampleAt 120 160, sampleAt 123 164, sampleAt 126 168,
     sampleAt 129 172, sampleAt 132 176, sampleAt 135 180, sampleAt 138 184, sampleAt 141 188,
     sampleAt 144 192, sampleAt 147 196, sampleAt 150 200, sampleAt 153 204, sampleAt 156 208,
     sampleAt 159 212, sampleAt 162 216, sampleAt 165 220, sampleAt 168 224, sampleAt 171 228,
     sampleAt 174 232, sampleAt 177 236]"
  by (simp add: straightRun_def upt_rec)

lemma straightRun_total: "last (cumulativeDistancesOf straightRun) = 295"
  by (simp add: straightRun_samples cumulativeDistancesOf_def sampleAt_def distance2D_def
      float64OfInt_def Let_def)

lemma straightRun_threshold: "lapThreshold straightRun = 25"
  by (simp add: lapThreshold_def straightRun_total Let_def) (simp add: straightRun_def)

lemma straightRun_single: "detectLapStarts straightRun = [0]"
proof -
  have len: "length straightRun = 60" by (simp add: straightRun_def)
  have "detectLoop straightRun 0 0 25 60 50 [0] = [0]"
    by (simp add: detectLoop_unfold detectLoop_done lapStep_def straightRun_samples sampleAt_def
        distance2D_def float64OfInt_def)
  then show ?thesis
    by (simp add: detectLapStarts_def lapStartsBefore_def straightRun_threshold len
        minPointsForLap_def) (simp add: straightRun_samples sampleAt_def)
qed

lemma sint_of_nat_small: "k < 2 ^ 63 \<Longrightarrow> sint (of_nat k :: goint) = int k"
  by (simp add: signed_of_nat signed_take_bit_int_eq_self)

lemma straightRun_line: "evenlySpacedLine straightRun 0 0 3 4"
proof -
  have "sint (of_nat i * 3 :: goint) = int i * 3 \<and> sint (of_nat i * 4 :: goint) = int i * 4"
    if "i < 60" for i
  proof -
    have "(of_nat i * 3 :: goint) = of_nat (i * 3)" "(of_nat i * 4 :: goint) = of_nat (i * 4)"
      by simp_all
    moreover have "i * 3 < 2 ^ 63" "i * 4 < 2 ^ 63" using that by simp_all
    ultimately show ?thesis by (simp only: sint_of_nat_small) simp
  qed
  then show ?thesis
    by (simp add: evenlySpacedLine_def straightRun_def sampleAt_def del: upt_Suc)
qed

theorem straight_line_indices_monotone_witness:
  "evenlySpacedLine straightRun 0 0 3 4 \<and>
   detectLapStarts straightRun = [0] \<and>
   sorted (mapLocationsToIndices straightRun) \<and>
   set (mapLocationsToIndices straightRun) \<subseteq> {0..143} \<and>
   hd (mapLocationsToIndices straightRun) = 0"
proof -
  note single = straightRun_single
  have "straightRun \<noteq> []" by (simp add: straightRun_def upt_conv_Cons del: upt_Suc)
  then show ?thesis
    using straight_line_indices_monotone [OF straightRun_line single] straightRun_line single
    by auto
qed

section \<open>Properties of start and of the fetcher\<close>

text \<open>
  The current variant of \<open>start\<close> returns the already-started error exactly when the flag
  is set.
\<close>

lemma parseElements_error:
  "parseElements cv i vs driverNumbers = Inl err \<Longrightarrow> \<exists>k T. err = ElementNotANumber k T"
  by (induction cv i vs driverNumbers rule: parseElements.induct) auto

lemma start_already_started_iff:
  "fst (start cv e s cmdValue) = Inl AlreadyStarted \<longleftrightarrow> started s"
  by (auto simp: start_def compareAndSwap_def parseDriverNumbers_def Let_def
      split: cmdValue.splits sum.splits option.splits dest: parseElements_error)

text \<open>
  Claim C3. \<open>start\<close> fails with the already-started error if and only if the flag is set.
  The single-driver variant tests the compare-and-swap the wrong way round: on a service
  that has not been started it sets the flag and returns the already-started error, and
  with the flag set it launches the pipeline.
\<close>

theorem start_single_inverted:
  "start_single upstreamDown freshModule_single =
     (Inl AlreadyStarted, freshModule_single\<lparr>vizF1viz_single.started := True\<rparr>) \<and>
   fst (start_single upstreamDown (freshModule_single\<lparr>vizF1viz_single.started := True\<rparr>))
     = Inr (Started 1)"
  by (simp add: start_single_def compareAndSwap_def freshModule_single_def upstreamDown_def
      raceSession_def Let_def)

text \<open>
  Whatever the state of a service that is not started, a payload that \<open>start\<close> rejects
  leaves the flag set.
\<close>

lemma start_rejected_payload:
  assumes "\<not> started s"
    and "parseDriverNumbers cv cmdValue = Inl err \<or> parseDriverNumbers cv cmdValue = Inr []"
  shows "isl (fst (start cv e s cmdValue)) \<and> snd (start cv e s cmdValue) = s\<lparr>started := True\<rparr>"
  using assms by (auto simp: start_def compareAndSwap_def Let_def)

text \<open>
  Claim C4. An invalid payload is expected to leave the flag as it was. \<open>start\<close> sets the
  flag before it reads the payload and returns the payload errors without resetting it
  (the errors of the session request do reset it): after a payload that is not a list, an
  empty list, or a list with an element that is not a number, the flag is set, and a
  well-formed \<open>start\<close> that follows fails with the already-started error, where on the
  fresh service it succeeds.
\<close>

theorem start_invalid_payload_sets_flag:
  "start cv upstreamDown freshModule (OtherCmd ''string'') =
     (Inl (ExpectsListOfIntegers ''string''), freshModule\<lparr>started := True\<rparr>) \<and>
   start cv upstreamDown freshModule (InterfaceSlice []) =
     (Inl RequiresAtLeastOneDriver, freshModule\<lparr>started := True\<rparr>) \<and>
   start cv upstreamDown freshModule (InterfaceSlice [IntVal 44, OtherVal ''string'']) =
     (Inl (ElementNotANumber 1 ''string''), freshModule\<lparr>started := True\<rparr>) \<and>
   fst (start cv upstreamDown (freshModule\<lparr>started := True\<rparr>) (IntSlice [44])) = Inl AlreadyStarted \<and>
   fst (start cv upstreamDown freshModule (IntSlice [44])) = Inr (Started 1)"
  by (simp add: start_def compareAndSwap_def freshModule_def upstreamDown_def raceSession_def
      parseDriverNumbers_def Let_def)

text \<open>
  Claim C9. On a tick whose location request returns an error the fetcher sends nothing,
  closes nothing and leaves its state, \<open>lastFetchedTime\<close> included, as it was.
\<close>

theorem fetcher_error_noop:
  "fetchLocationData e (sessionKey state) (driverNumber state) (lastFetchedTime state)
      (lastFetchedTime state + fetchWindowDuration) = Inl err \<Longrightarrow>
   fetcher e state driverChan = Inr (state, driverChan)"
  by (simp add: fetcher_def Let_def)

theorem fetcher_error_noop_witness:
  "fetchLocationData upstreamDown (sessionKey hamilton) (driverNumber hamilton)
      (lastFetchedTime hamilton) (lastFetchedTime hamilton + fetchWindowDuration)
     = Inl ''failed to make request'' \<and>
   fetcher upstreamDown hamilton emptyQueue = Inr (hamilton, emptyQueue)"
proof -
  have err: "fetchLocationData upstreamDown (sessionKey hamilton) (driverNumber hamilton)
      (lastFetchedTime hamilton) (lastFetchedTime hamilton + fetchWindowDuration)
     = Inl ''failed to make request''"
    by (simp add: upstreamDown_def)
  from fetcher_error_noop [OF err] err show ?thesis by simp
qed

text \<open>A tick whose request returns a sample does send it and advances \<open>lastFetchedTime\<close>.\<close>

lemma bufferLowThreshold_value: "bufferLowThreshold = 7205759403792794 / 2 ^ 55"
  unfolding bufferLowThreshold_def
  using rnd_eval_near [of "- 3" "1 / 5" 7205759403792794] by (simp add: power_int_minus)

lemma fetcher_one_sample:
  "fetcher upstreamOneSample hamilton emptyQueue =
     Inr (hamilton\<lparr>lastFetchedTime := 1000000\<rparr>, emptyQueue\<lparr>buffer := [sampleAt 0 0]\<rparr>)"
  by (simp add: fetcher_def upstreamOneSample_def upstreamDown_def hamilton_def emptyQueue_def
      makeChan_def locationChannelBuffer_def bufferLowThreshold_value fetchWindowDuration_def
      millisecond_def Let_def)

end
